theory Spec2Isabelle
  imports Main "HOL-Library.Stream"
begin

section \<open>The world outside the player\<close>

text \<open>
  \<^verbatim>\<open>mpv_tui.py\<close> drives an external media player through \<^verbatim>\<open>subprocess.Popen\<close>,
  draws indices from \<^verbatim>\<open>random.randint\<close> and paints a curses screen. These are modelled as
  an explicit world that every operation takes and returns:
  \<^item> a table of the executables \<^verbatim>\<open>Popen\<close> can resolve, and what launching each one does;
  \<^item> the table of child processes started so far (a handle is the position in the table);
  \<^item> the stream of raw values the random generator is going to deliver;
  \<^item> whether the terminal lets a refresh of the screen go through;
  \<^item> a log of the external calls made, in order.
  Exceptions are values: an operation that can raise returns \<open>exn + result\<close>.
\<close>

datatype exn = FileNotFoundError | OSError | IndexError | ValueError

datatype launch =
    Launches bool  \<comment> \<open>the program starts; the flag: it exits within a second of SIGTERM\<close>
  | Refused        \<comment> \<open>resolvable, but \<^verbatim>\<open>Popen\<close> raises another \<^verbatim>\<open>OSError\<close> (e.g. PermissionError)\<close>

record process =
  argv :: "string list"
  alive :: bool
  heeds_term :: bool

datatype syscall =
    Popen "string list" "nat option"  \<comment> \<open>command line, handle of the child if one was started\<close>
  | Terminate nat
  | Wait nat nat                      \<comment> \<open>handle, timeout in seconds\<close>
  | Kill nat
  | Randint int int int               \<comment> \<open>bounds and the value returned\<close>
  | Refresh                           \<comment> \<open>a frame was drawn and flushed to the screen\<close>
  | Refresh_error                     \<comment> \<open>\<^verbatim>\<open>refresh()\<close> raised \<^verbatim>\<open>curses.error\<close>, which is swallowed\<close>

record os_world =
  commands :: "(string \<times> launch) list"
  procs :: "process list"
  rng :: "nat stream"
  refresh_raises :: bool  \<comment> \<open>the terminal makes \<^verbatim>\<open>stdscr.refresh()\<close> raise \<^verbatim>\<open>curses.error\<close>\<close>
  trace :: "syscall list"

definition proc_alive :: "os_world \<Rightarrow> nat \<Rightarrow> bool" where
  "proc_alive w p = (p < length (procs w) \<and> alive (procs w ! p))"

definition live_pids :: "os_world \<Rightarrow> nat list" where
  "live_pids w = filter (proc_alive w) [0 ..< length (procs w)]"

definition set_dead :: "nat \<Rightarrow> os_world \<Rightarrow> os_world" where
  "set_dead p w =
     (if p < length (procs w)
      then w\<lparr>procs := (procs w)[p := (procs w ! p)\<lparr>alive := False\<rparr>]\<rparr>
      else w)"

text \<open>\<^verbatim>\<open>subprocess.Popen(cmd, ...)\<close>: the executable is the first word of the command.\<close>

definition popen :: "string list \<Rightarrow> os_world \<Rightarrow> (exn + nat) \<times> os_world" where
  "popen cmd w =
     (case cmd of
        [] \<Rightarrow> (Inl IndexError, w)
      | exe # _ \<Rightarrow>
          (case map_of (commands w) exe of
             None \<Rightarrow> (Inl FileNotFoundError, w\<lparr>trace := trace w @ [Popen cmd None]\<rparr>)
           | Some Refused \<Rightarrow> (Inl OSError, w\<lparr>trace := trace w @ [Popen cmd None]\<rparr>)
           | Some (Launches h) \<Rightarrow>
               (Inr (length (procs w)),
                w\<lparr>procs := procs w @ [\<lparr>argv = cmd, alive = True, heeds_term = h\<rparr>],
                  trace := trace w @ [Popen cmd (Some (length (procs w)))]\<rparr>)))"

text \<open>\<^verbatim>\<open>process.poll() is not None\<close>: the child has exited.\<close>

definition has_exited :: "os_world \<Rightarrow> nat \<Rightarrow> bool" where
  "has_exited w p = (\<not> proc_alive w p)"

text \<open>
  \<^verbatim>\<open>process.terminate()\<close> sends SIGTERM: a child that heeds it is gone within the grace
  period, one that does not stays alive. \<^verbatim>\<open>process.wait(timeout)\<close> returns when the child
  is gone and raises \<^verbatim>\<open>TimeoutExpired\<close> (the flag \<open>True\<close>) when it is still alive.
  \<^verbatim>\<open>process.kill()\<close> sends SIGKILL, which cannot be ignored.
\<close>

definition terminate :: "nat \<Rightarrow> os_world \<Rightarrow> os_world" where
  "terminate p w =
     (let w1 = w\<lparr>trace := trace w @ [Terminate p]\<rparr>
      in if proc_alive w p \<and> heeds_term (procs w ! p) then set_dead p w1 else w1)"

definition wait :: "nat \<Rightarrow> nat \<Rightarrow> os_world \<Rightarrow> bool \<times> os_world" where
  "wait p timeout w = (proc_alive w p, w\<lparr>trace := trace w @ [Wait p timeout]\<rparr>)"

definition kill :: "nat \<Rightarrow> os_world \<Rightarrow> os_world" where
  "kill p w = set_dead p (w\<lparr>trace := trace w @ [Kill p]\<rparr>)"

text \<open>
  \<^verbatim>\<open>random.randint(a, b)\<close>: an integer of \<open>[a, b]\<close>, \<^verbatim>\<open>ValueError\<close> on an empty range.
  The next raw value of the generator is reduced into the range.
\<close>

definition randint :: "int \<Rightarrow> int \<Rightarrow> os_world \<Rightarrow> exn + (int \<times> os_world)" where
  "randint a b w =
     (if b < a then Inl ValueError
      else (let r = a + int (shd (rng w) mod nat (b - a + 1))
            in Inr (r, w\<lparr>rng := stl (rng w), trace := trace w @ [Randint a b r]\<rparr>)))"

text \<open>List subscription \<^verbatim>\<open>xs[i]\<close> as Python evaluates it: an index below zero is taken
  relative to the end of the list, and \<^verbatim>\<open>IndexError\<close> is raised outside \<open>[-len, len)\<close>.\<close>

definition py_index :: "'a list \<Rightarrow> int \<Rightarrow> exn + 'a" where
  "py_index xs i =
     (if 0 \<le> i \<and> i < int (length xs) then Inr (xs ! nat i)
      else if - int (length xs) \<le> i \<and> i < 0 then Inr (xs ! nat (int (length xs) + i))
      else Inl IndexError)"

text \<open>The key codes of curses that \<^verbatim>\<open>run\<close> compares \<^verbatim>\<open>getch()\<close> with (ncurses values).\<close>

definition ERR :: int where "ERR = - 1"
definition KEY_DOWN :: int where "KEY_DOWN = 258"
definition KEY_UP :: int where "KEY_UP = 259"
definition KEY_HOME :: int where "KEY_HOME = 262"
definition KEY_NPAGE :: int where "KEY_NPAGE = 338"
definition KEY_PPAGE :: int where "KEY_PPAGE = 339"
definition KEY_END :: int where "KEY_END = 360"

definition ord :: "char \<Rightarrow> int" where
  "ord c = of_char c"

section \<open>PlayerState and MediaPlayer\<close>

record player_state =
  child_finished :: bool
  mpv_process :: "nat option"
  needs_redraw :: bool

definition set_process :: "nat option \<Rightarrow> player_state \<Rightarrow> player_state" where
  "set_process process st = st\<lparr>mpv_process := process\<rparr>"

definition get_process :: "player_state \<Rightarrow> nat option" where
  "get_process st = mpv_process st"

record media_player =
  state :: player_state
  directory :: string
  files :: "string list"
  highlight :: int
  start_index :: int
  shuffle_mode :: bool

text \<open>\<^verbatim>\<open>MediaPlayer.__init__\<close>, with the library that \<^verbatim>\<open>load_media_files\<close> has stored.\<close>

definition MediaPlayer :: "string \<Rightarrow> string list \<Rightarrow> media_player" where
  "MediaPlayer dir fs =
     \<lparr>state = \<lparr>child_finished = False, mpv_process = None, needs_redraw = True\<rparr>,
      directory = dir, files = fs, highlight = 0, start_index = 0, shuffle_mode = False\<rparr>"

definition set_needs_redraw :: "bool \<Rightarrow> media_player \<Rightarrow> media_player" where
  "set_needs_redraw b m = m\<lparr>state := (state m)\<lparr>needs_redraw := b\<rparr>\<rparr>"

definition set_child_finished :: "bool \<Rightarrow> media_player \<Rightarrow> media_player" where
  "set_child_finished b m = m\<lparr>state := (state m)\<lparr>child_finished := b\<rparr>\<rparr>"

subsection \<open>stop_playback\<close>

definition stop_playback :: "media_player \<Rightarrow> os_world \<Rightarrow> media_player \<times> os_world" where
  "stop_playback m w =
     (case get_process (state m) of
        None \<Rightarrow> (m, w)
      | Some process \<Rightarrow>
          (let (timeout_expired, w1) = wait process 1 (terminate process w);
               w2 = (if timeout_expired then kill process w1 else w1)
           in (set_needs_redraw True (m\<lparr>state := set_process None (state m)\<rparr>), w2)))"

subsection \<open>play_file\<close>

text \<open>
  \<^verbatim>\<open>str(self.directory / filename)\<close>, with pathlib's rules for POSIX paths: a path is a
  root (\<^verbatim>\<open>/\<close>, \<^verbatim>\<open>//\<close> or none) and the components between the slashes, empty components
  and \<^verbatim>\<open>.\<close> being dropped; joining keeps the right operand alone when it has a root,
  and appends its components otherwise. \<open>directory\<close> holds the string of the resolved
  directory.
\<close>

fun split_slash :: "string \<Rightarrow> string list" where
  "split_slash [] = [[]]"
| "split_slash (c # cs) =
     (if c = CHR ''/'' then [] # split_slash cs
      else (case split_slash cs of [] \<Rightarrow> [[c]] | p # ps \<Rightarrow> (c # p) # ps))"

fun join_slash :: "string list \<Rightarrow> string" where
  "join_slash [] = []"
| "join_slash [p] = p"
| "join_slash (p # q # ps) = p @ ''/'' @ join_slash (q # ps)"

definition path_parts :: "string \<Rightarrow> string list" where
  "path_parts s = filter (\<lambda>p. p \<noteq> [] \<and> p \<noteq> ''.'') (split_slash s)"

definition path_root :: "string \<Rightarrow> string" where
  "path_root s =
     (if take 2 s = ''//'' \<and> take 3 s \<noteq> ''///'' then ''//''
      else if take 1 s = ''/'' then ''/'' else [])"

definition path_str :: "string \<Rightarrow> string list \<Rightarrow> string" where
  "path_str root parts = (if root = [] \<and> parts = [] then ''.'' else root @ join_slash parts)"

definition filepath :: "media_player \<Rightarrow> string \<Rightarrow> string" where
  "filepath m filename =
     (if path_root filename \<noteq> [] then path_str (path_root filename) (path_parts filename)
      else path_str (path_root (directory m)) (path_parts (directory m) @ path_parts filename))"

definition players :: "string \<Rightarrow> string list list" where
  "players path =
     [[''mpv'', ''--no-terminal'', ''--quiet'', path],
      [''mplayer'', ''-quiet'', path],
      [''vlc'', ''--intf'', ''dummy'', path]]"

text \<open>The \<^verbatim>\<open>for player_cmd in players\<close> loop: the first command that launches wins,
  \<^verbatim>\<open>FileNotFoundError\<close> moves on to the next one, any other exception escapes.\<close>

fun try_players ::
  "string list list \<Rightarrow> media_player \<Rightarrow> os_world \<Rightarrow> exn + (bool \<times> media_player \<times> os_world)" where
  "try_players [] m w = Inr (False, m, w)"
| "try_players (player_cmd # rest) m w =
     (case popen player_cmd w of
        (Inr process, w1) \<Rightarrow>
          Inr (True, set_needs_redraw True (m\<lparr>state := set_process (Some process) (state m)\<rparr>), w1)
      | (Inl FileNotFoundError, w1) \<Rightarrow> try_players rest m w1
      | (Inl e, w1) \<Rightarrow> Inl e)"

definition play_file ::
  "string \<Rightarrow> media_player \<Rightarrow> os_world \<Rightarrow> exn + (bool \<times> media_player \<times> os_world)" where
  "play_file filename m w =
     (let (m1, w1) = stop_playback m w
      in try_players (players (filepath m1 filename)) m1 w1)"

subsection \<open>update_scroll and play_random_file\<close>

definition update_scroll :: "int \<Rightarrow> media_player \<Rightarrow> media_player" where
  "update_scroll display_count m =
     (let m1 = (if highlight m < start_index m then m\<lparr>start_index := highlight m\<rparr>
                else if highlight m \<ge> start_index m + display_count
                then m\<lparr>start_index := highlight m - display_count + 1\<rparr>
                else m)
      in m1\<lparr>start_index := max 0 (start_index m1)\<rparr>)"

definition play_random_file ::
  "int \<Rightarrow> media_player \<Rightarrow> os_world \<Rightarrow> exn + (media_player \<times> os_world)" where
  "play_random_file display_count m w =
     (if files m = [] then Inr (m, w)
      else
        (case randint 0 (int (length (files m)) - 1) w of
           Inl e \<Rightarrow> Inl e
         | Inr (random_index, w1) \<Rightarrow>
             (case py_index (files m) random_index of
                Inl e \<Rightarrow> Inl e
              | Inr filename \<Rightarrow>
                  (case play_file filename m w1 of
                     Inl e \<Rightarrow> Inl e
                   | Inr (_, m2, w2) \<Rightarrow>
                       Inr (set_needs_redraw True
                              (update_scroll display_count (m2\<lparr>highlight := random_index\<rparr>)),
                            w2)))))"

subsection \<open>draw_interface\<close>

text \<open>Only the dirty-flag protocol of \<^verbatim>\<open>draw_interface\<close> is modelled: nothing is drawn
  when the flag is clear; otherwise the frame is composed, \<^verbatim>\<open>refresh()\<close> is called and the
  flag is cleared, also when \<^verbatim>\<open>refresh()\<close> raised \<^verbatim>\<open>curses.error\<close> (lines 306 to 310).
  The layout of the frame is outside the model.\<close>

definition draw_interface :: "media_player \<Rightarrow> os_world \<Rightarrow> media_player \<times> os_world" where
  "draw_interface m w =
     (if \<not> needs_redraw (state m) then (m, w)
      else (set_needs_redraw False m,
            w\<lparr>trace := trace w @ [if refresh_raises w then Refresh_error else Refresh]\<rparr>))"

subsection \<open>The event loop of run\<close>

datatype loop_ctl = Continue | Break

text \<open>Lines 361 to 364: the finished signal of the monitor is consumed.\<close>

definition handle_child_finished ::
  "int \<Rightarrow> media_player \<Rightarrow> os_world \<Rightarrow> exn + (media_player \<times> os_world)" where
  "handle_child_finished display_count m w =
     (if child_finished (state m) then
        (let m1 = set_child_finished False m
         in if shuffle_mode m1 then play_random_file display_count m1 w else Inr (m1, w))
      else Inr (m, w))"

text \<open>Lines 370 to 418: the branch taken when \<^verbatim>\<open>getch()\<close> delivered a key.\<close>

definition handle_key ::
  "int \<Rightarrow> int \<Rightarrow> media_player \<Rightarrow> os_world \<Rightarrow> exn + (loop_ctl \<times> media_player \<times> os_world)" where
  "handle_key display_count ch m0 w =
     (let m = set_needs_redraw True m0; n = int (length (files m))
      in
      if ch = KEY_UP then
        Inr (Continue,
             (if highlight m > 0
              then update_scroll display_count (m\<lparr>highlight := highlight m - 1\<rparr>) else m), w)
      else if ch = KEY_DOWN then
        Inr (Continue,
             (if highlight m < n - 1
              then update_scroll display_count (m\<lparr>highlight := highlight m + 1\<rparr>) else m), w)
      else if ch = KEY_PPAGE then
        Inr (Continue,
             update_scroll display_count (m\<lparr>highlight := max 0 (highlight m - display_count)\<rparr>), w)
      else if ch = KEY_NPAGE then
        Inr (Continue,
             update_scroll display_count
               (m\<lparr>highlight := min (n - 1) (highlight m + display_count)\<rparr>), w)
      else if ch = KEY_HOME then
        Inr (Continue, m\<lparr>highlight := 0, start_index := 0\<rparr>, w)
      else if ch = KEY_END then
        Inr (Continue, update_scroll display_count (m\<lparr>highlight := n - 1\<rparr>), w)
      else if ch = 10 \<or> ch = 13 then
        (let m1 = m\<lparr>shuffle_mode := False\<rparr>
         in if files m1 \<noteq> [] then
              (case py_index (files m1) (highlight m1) of
                 Inl e \<Rightarrow> Inl e
               | Inr filename \<Rightarrow>
                   (case play_file filename m1 w of
                      Inl e \<Rightarrow> Inl e
                    | Inr (_, m2, w2) \<Rightarrow> Inr (Continue, m2, w2)))
            else Inr (Continue, m1, w))
      else if ch = ord CHR '' '' then
        (let (m1, w1) = stop_playback m w in Inr (Continue, m1, w1))
      else if ch = ord CHR ''s'' \<or> ch = ord CHR ''S'' then
        (let m1 = m\<lparr>shuffle_mode := \<not> shuffle_mode m\<rparr>
         in if shuffle_mode m1 \<and> get_process (state m1) = None then
              (case play_random_file display_count m1 w of
                 Inl e \<Rightarrow> Inl e
               | Inr (m2, w2) \<Rightarrow> Inr (Continue, m2, w2))
            else Inr (Continue, m1, w))
      else if ch = ord CHR ''r'' \<or> ch = ord CHR ''R'' then
        (case play_random_file display_count m w of
           Inl e \<Rightarrow> Inl e
         | Inr (m2, w2) \<Rightarrow> Inr (Continue, m2, w2))
      else if ch = ord CHR ''q'' \<or> ch = ord CHR ''Q'' \<or> ch = 27 then
        Inr (Break, m, w)
      else
        Inr (Continue, set_needs_redraw False m, w))"

text \<open>What \<^verbatim>\<open>stdscr.getch()\<close> does in one pass of the loop: it returns a code
  (\<open>ERR\<close> when no key is waiting) or the user's interrupt arrives.\<close>

datatype input = Getch int | KeyboardInterrupt

text \<open>Lines 367 to 421: the \<^verbatim>\<open>try\<close> block around \<^verbatim>\<open>getch()\<close> and the key dispatch.\<close>

definition handle_input ::
  "int \<Rightarrow> input \<Rightarrow> media_player \<Rightarrow> os_world \<Rightarrow> exn + (loop_ctl \<times> media_player \<times> os_world)" where
  "handle_input display_count inp m w =
     (case inp of
        KeyboardInterrupt \<Rightarrow> Inr (Break, m, w)
      | Getch ch \<Rightarrow>
          if ch \<noteq> ERR then handle_key display_count ch m w
          else Inr (Continue, m, w))"

text \<open>One pass through the body of \<^verbatim>\<open>while True\<close> for a terminal of height \<open>term_y\<close>.\<close>

definition iteration ::
  "int \<Rightarrow> input \<Rightarrow> media_player \<Rightarrow> os_world \<Rightarrow> exn + (loop_ctl \<times> media_player \<times> os_world)" where
  "iteration term_y inp m w =
     (let display_count = max 1 (term_y - 13);
          (m1, w1) = draw_interface m w
      in case handle_child_finished display_count m1 w1 of
           Inl e \<Rightarrow> Inl e
         | Inr (m2, w2) \<Rightarrow> handle_input display_count inp m2 w2)"

text \<open>A sequence of key presses handled one after the other with the same number of
  visible rows; it ends early when a key quits the loop or an exception escapes.\<close>

fun handle_keys ::
  "int \<Rightarrow> int list \<Rightarrow> media_player \<Rightarrow> os_world \<Rightarrow> exn + (loop_ctl \<times> media_player \<times> os_world)" where
  "handle_keys display_count [] m w = Inr (Continue, m, w)"
| "handle_keys display_count (ch # chs) m w =
     (case handle_key display_count ch m w of
        Inl e \<Rightarrow> Inl e
      | Inr (Break, m1, w1) \<Rightarrow> Inr (Break, m1, w1)
      | Inr (Continue, m1, w1) \<Rightarrow> handle_keys display_count chs m1 w1)"

section \<open>The monitor thread\<close>

text \<open>
  \<^verbatim>\<open>_monitor_processes\<close> runs beside the event loop. Its loop body is modelled one source
  line at a time (the constructor names carry the line numbers of \<^verbatim>\<open>mpv_tui.py\<close>), with
  the local variable \<^verbatim>\<open>process\<close> kept in the program counter. \<^verbatim>\<open>get_process\<close> and
  \<^verbatim>\<open>set_process\<close> take the lock for the single access they make and release it on return,
  so each is one atomic step; lines 61 and 62 assign the flags without the lock.
\<close>

datatype monitor_pc = L58 | L59 "nat option" | L60 | L61 | L62 | L63

definition monitor_step :: "monitor_pc \<Rightarrow> media_player \<Rightarrow> os_world \<Rightarrow> monitor_pc \<times> media_player" where
  "monitor_step pc m w =
     (case pc of
        L58 \<Rightarrow> (L59 (get_process (state m)), m)
      | L59 process \<Rightarrow>
          (case process of
             None \<Rightarrow> (L63, m)
           | Some p \<Rightarrow> if has_exited w p then (L60, m) else (L63, m))
      | L60 \<Rightarrow> (L61, m\<lparr>state := set_process None (state m)\<rparr>)
      | L61 \<Rightarrow> (L62, set_child_finished True m)
      | L62 \<Rightarrow> (L63, set_needs_redraw True m)
      | L63 \<Rightarrow> (L58, m))"

text \<open>
  A schedule interleaves steps of the monitor with operations of the foreground thread
  and with children exiting on their own. The foreground operations are taken whole, which
  describes the schedules where the monitor does not run in the middle of one.
\<close>

datatype action = Monitor | Play string | Stop | Child_exit nat

type_synonym system = "monitor_pc \<times> media_player \<times> os_world"

fun step :: "action \<Rightarrow> system \<Rightarrow> exn + system" where
  "step Monitor (pc, m, w) = (case monitor_step pc m w of (pc1, m1) \<Rightarrow> Inr (pc1, m1, w))"
| "step (Play filename) (pc, m, w) =
     (case play_file filename m w of Inl e \<Rightarrow> Inl e | Inr (_, m1, w1) \<Rightarrow> Inr (pc, m1, w1))"
| "step Stop (pc, m, w) = (case stop_playback m w of (m1, w1) \<Rightarrow> Inr (pc, m1, w1))"
| "step (Child_exit p) (pc, m, w) = Inr (pc, m, set_dead p w)"

fun run_schedule :: "action list \<Rightarrow> system \<Rightarrow> exn + system" where
  "run_schedule [] s = Inr s"
| "run_schedule (a # as) s =
     (case step a s of Inl e \<Rightarrow> Inl e | Inr s1 \<Rightarrow> run_schedule as s1)"

section \<open>Predicates used in the properties\<close>

text \<open>\<^verbatim>\<open>is_playing\<close> as \<^verbatim>\<open>draw_interface\<close> computes it for the status line.\<close>

definition is_playing :: "media_player \<Rightarrow> bool" where
  "is_playing m = (get_process (state m) \<noteq> None)"

text \<open>Every child that is still running is the one the session slot holds, and a handle
  in the slot is the handle of a child that was started.\<close>

definition single_session :: "media_player \<Rightarrow> os_world \<Rightarrow> bool" where
  "single_session m w =
     ((\<forall>p \<in> set (live_pids w). get_process (state m) = Some p)
      \<and> (case get_process (state m) of None \<Rightarrow> True | Some p \<Rightarrow> p < length (procs w)))"

fun is_popen :: "syscall \<Rightarrow> bool" where
  "is_popen (Popen cmd r) = True"
| "is_popen e = False"

text \<open>The highlighted row lies in the window of \<open>display_count\<close> rows.\<close>

definition viewport_ok :: "int \<Rightarrow> media_player \<Rightarrow> bool" where
  "viewport_ok display_count m =
     (0 \<le> start_index m \<and> start_index m \<le> highlight m
      \<and> highlight m < start_index m + display_count)"

definition is_nav_key :: "int \<Rightarrow> bool" where
  "is_nav_key ch =
     (ch = KEY_UP \<or> ch = KEY_DOWN \<or> ch = KEY_PPAGE \<or> ch = KEY_NPAGE \<or> ch = KEY_HOME
      \<or> ch = KEY_END)"

subsection \<open>Example states\<close>

definition demo_player :: media_player where
  "demo_player = MediaPlayer ''/music'' [''a.mp3'', ''b.mp3'', ''c.mp3'']"

text \<open>A machine with mpv installed, and one where no candidate player is installed.\<close>

definition mpv_world :: os_world where
  "mpv_world = \<lparr>commands = [(''mpv'', Launches True)], procs = [], rng = [2, 1] @- sconst 0,
                 refresh_raises = False, trace = []\<rparr>"

definition bare_world :: os_world where
  "bare_world = \<lparr>commands = [], procs = [], rng = [2, 1] @- sconst 0,
                  refresh_raises = False, trace = []\<rparr>"

text \<open>The player right after the monitor has reported that the track ended.\<close>

definition finished_player :: "bool \<Rightarrow> media_player" where
  "finished_player shuffle =
     demo_player\<lparr>state := \<lparr>child_finished = True, mpv_process = None, needs_redraw = True\<rparr>,
                 shuffle_mode := shuffle\<rparr>"

text \<open>The player and the world after \<^verbatim>\<open>a.mp3\<close> and then \<^verbatim>\<open>b.mp3\<close> were played with mpv.\<close>

definition mpv_cmd :: "string \<Rightarrow> string list" where
  "mpv_cmd f = [''mpv'', ''--no-terminal'', ''--quiet'', ''/music/'' @ f]"

definition playing :: "nat \<Rightarrow> media_player" where
  "playing p =
     demo_player\<lparr>state := \<lparr>child_finished = False, mpv_process = Some p, needs_redraw = True\<rparr>\<rparr>"

definition after_first :: os_world where
  "after_first =
     mpv_world\<lparr>procs := [\<lparr>argv = mpv_cmd ''a.mp3'', alive = True, heeds_term = True\<rparr>],
               trace := [Popen (mpv_cmd ''a.mp3'') (Some 0)]\<rparr>"

definition after_second :: os_world where
  "after_second =
     mpv_world\<lparr>procs := [\<lparr>argv = mpv_cmd ''a.mp3'', alive = False, heeds_term = True\<rparr>,
                         \<lparr>argv = mpv_cmd ''b.mp3'', alive = True, heeds_term = True\<rparr>],
               trace := [Popen (mpv_cmd ''a.mp3'') (Some 0), Terminate 0, Wait 0 1,
                         Popen (mpv_cmd ''b.mp3'') (Some 1)]\<rparr>"

section \<open>Processes and the session slot\<close>

lemma in_live_pids: "p \<in> set (live_pids w) \<longleftrightarrow> proc_alive w p"
  by (auto simp: live_pids_def proc_alive_def)

lemma proc_alive_trace [simp]: "proc_alive (w\<lparr>trace := t\<rparr>) q = proc_alive w q"
  by (simp add: proc_alive_def)

lemma proc_alive_set_dead: "proc_alive (set_dead p w) q = (proc_alive w q \<and> q \<noteq> p)"
  by (auto simp: proc_alive_def set_dead_def nth_list_update)

lemma proc_alive_terminate:
  "proc_alive (terminate p w) q = (proc_alive w q \<and> \<not> (q = p \<and> heeds_term (procs w ! p)))"
  by (auto simp: terminate_def Let_def proc_alive_set_dead)

lemma proc_alive_kill: "proc_alive (kill p w) q = (proc_alive w q \<and> q \<noteq> p)"
  by (simp add: kill_def proc_alive_set_dead)

lemma trace_set_dead: "trace (set_dead p w) = trace w"
  by (simp add: set_dead_def)

lemma commands_set_dead: "commands (set_dead p w) = commands w"
  by (simp add: set_dead_def)

lemma rng_set_dead: "rng (set_dead p w) = rng w"
  by (simp add: set_dead_def)

lemma length_procs_set_dead: "length (procs (set_dead p w)) = length (procs w)"
  by (simp add: set_dead_def)

lemma stop_playback_None: "get_process (state m) = None \<Longrightarrow> stop_playback m w = (m, w)"
  by (simp add: stop_playback_def)

lemma stop_playback_Some:
  "get_process (state m) = Some p \<Longrightarrow>
   stop_playback m w =
     (set_needs_redraw True (m\<lparr>state := set_process None (state m)\<rparr>),
      (if proc_alive w p \<and> \<not> heeds_term (procs w ! p)
       then kill p (snd (wait p 1 (terminate p w)))
       else snd (wait p 1 (terminate p w))))"
  by (auto simp: stop_playback_def wait_def proc_alive_terminate Let_def)

lemma stop_playback_trace:
  "get_process (state m) = Some p \<Longrightarrow>
   trace (snd (stop_playback m w)) =
     trace w @ [Terminate p, Wait p 1] @
       (if proc_alive w p \<and> \<not> heeds_term (procs w ! p) then [Kill p] else [])"
  by (simp add: stop_playback_Some wait_def kill_def terminate_def trace_set_dead Let_def)

lemma stop_playback_alive:
  "get_process (state m) = Some p \<Longrightarrow>
   proc_alive (snd (stop_playback m w)) q = (proc_alive w q \<and> q \<noteq> p)"
  by (auto simp: stop_playback_Some wait_def proc_alive_kill proc_alive_terminate)

lemma stop_playback_slot: "get_process (state (fst (stop_playback m w))) = None"
  by (cases "get_process (state m)")
     (simp_all add: stop_playback_None stop_playback_Some set_needs_redraw_def set_process_def get_process_def)

lemma stop_playback_fields:
  "files (fst (stop_playback m w)) = files m \<and> highlight (fst (stop_playback m w)) = highlight m
   \<and> start_index (fst (stop_playback m w)) = start_index m
   \<and> shuffle_mode (fst (stop_playback m w)) = shuffle_mode m
   \<and> directory (fst (stop_playback m w)) = directory m
   \<and> child_finished (state (fst (stop_playback m w))) = child_finished (state m)"
  by (cases "get_process (state m)")
     (simp_all add: stop_playback_None stop_playback_Some set_needs_redraw_def set_process_def)

lemma stop_playback_world:
  "commands (snd (stop_playback m w)) = commands w \<and> rng (snd (stop_playback m w)) = rng w
   \<and> length (procs (snd (stop_playback m w))) = length (procs w)"
  by (cases "get_process (state m)")
     (simp_all add: stop_playback_None stop_playback_Some wait_def kill_def terminate_def
        commands_set_dead rng_set_dead length_procs_set_dead Let_def)

lemma stop_playback_no_live:
  assumes "single_session m w"
  shows "\<not> proc_alive (snd (stop_playback m w)) q"
proof (cases "get_process (state m)")
  case None
  with assms show ?thesis
    by (auto simp: single_session_def in_live_pids stop_playback_None)
next
  case (Some p)
  with assms show ?thesis
    by (auto simp: single_session_def in_live_pids stop_playback_alive)
qed

subsection \<open>Launching a player\<close>

lemma popen_Inr:
  "popen cmd w = (Inr p, w1) \<Longrightarrow>
     p = length (procs w) \<and> (\<exists>h. procs w1 = procs w @ [\<lparr>argv = cmd, alive = True, heeds_term = h\<rparr>])
     \<and> trace w1 = trace w @ [Popen cmd (Some p)] \<and> commands w1 = commands w \<and> rng w1 = rng w"
  by (auto simp: popen_def split: list.splits option.splits launch.splits)

lemma popen_Inl:
  "popen cmd w = (Inl e, w1) \<Longrightarrow>
     procs w1 = procs w \<and> commands w1 = commands w \<and> rng w1 = rng w
     \<and> (\<exists>ls. trace w1 = trace w @ ls \<and> (\<forall>x \<in> set ls. is_popen x))"
  by (auto simp: popen_def split: list.splits option.splits launch.splits)

lemma proc_alive_popen_Inr:
  "popen cmd w = (Inr p, w1) \<Longrightarrow> proc_alive w1 q = (proc_alive w q \<or> q = p)"
  by (auto simp: popen_def proc_alive_def nth_append split: list.splits option.splits launch.splits)

lemma proc_alive_popen_Inl:
  "popen cmd w = (Inl e, w1) \<Longrightarrow> proc_alive w1 q = proc_alive w q"
  by (auto simp: popen_def proc_alive_def split: list.splits option.splits launch.splits)

lemma try_players_True:
  "try_players cmds m w = Inr (True, m1, w1) \<Longrightarrow>
     (\<exists>p cmd. get_process (state m1) = Some p \<and> length (procs w) \<le> p \<and> cmd \<in> set cmds
        \<and> p < length (procs w1) \<and> argv (procs w1 ! p) = cmd
        \<and> (\<forall>q. proc_alive w1 q = (proc_alive w q \<or> q = p)))
     \<and> needs_redraw (state m1)"
proof (induction cmds arbitrary: w)
  case Nil
  then show ?case by simp
next
  case (Cons c cs)
  obtain r w2 where pc: "popen c w = (r, w2)" by (cases "popen c w")
  show ?case
  proof (cases r)
    case (Inr p)
    with Cons.prems pc have m1: "m1 = set_needs_redraw True (m\<lparr>state := set_process (Some p) (state m)\<rparr>)"
      and w1: "w1 = w2" by simp_all
    from pc Inr have "popen c w = (Inr p, w2)" by simp
    note facts = popen_Inr [OF this] proc_alive_popen_Inr [OF this]
    from facts(1) have "p < length (procs w2)" "argv (procs w2 ! p) = c" by auto
    with facts m1 w1 show ?thesis
      by (auto simp: set_needs_redraw_def set_process_def get_process_def)
  next
    case (Inl e)
    with pc have pe: "popen c w = (Inl e, w2)" by simp
    with Cons.prems have e: "e = FileNotFoundError" and rest: "try_players cs m w2 = Inr (True, m1, w1)"
      by (cases e; simp)+
    from Cons.IH [OF rest] popen_Inl [OF pe] proc_alive_popen_Inl [OF pe]
    show ?thesis by auto
  qed
qed

lemma try_players_False:
  "try_players cmds m w = Inr (False, m1, w1) \<Longrightarrow>
     m1 = m \<and> procs w1 = procs w \<and> commands w1 = commands w \<and> rng w1 = rng w"
proof (induction cmds arbitrary: w)
  case Nil
  then show ?case by simp
next
  case (Cons c cs)
  obtain r w2 where pc: "popen c w = (r, w2)" by (cases "popen c w")
  show ?case
  proof (cases r)
    case (Inr p)
    with Cons.prems pc show ?thesis by simp
  next
    case (Inl e)
    with pc have pe: "popen c w = (Inl e, w2)" by simp
    with Cons.prems have rest: "try_players cs m w2 = Inr (False, m1, w1)"
      by (cases e; simp)
    from Cons.IH [OF rest] popen_Inl [OF pe] show ?thesis by simp
  qed
qed

lemma try_players_trace:
  "try_players cmds m w = Inr (ok, m1, w1) \<Longrightarrow>
     \<exists>ls. trace w1 = trace w @ ls \<and> (\<forall>x \<in> set ls. is_popen x) \<and> length ls \<le> length cmds
       \<and> (ls = [] \<longrightarrow> cmds = [])"
proof (induction cmds arbitrary: w)
  case Nil
  then show ?case by simp
next
  case (Cons c cs)
  obtain r w2 where pc: "popen c w = (r, w2)" by (cases "popen c w")
  show ?case
  proof (cases r)
    case (Inr p)
    with Cons.prems pc have "w1 = w2" by simp
    with popen_Inr [of c w p w2] pc Inr show ?thesis by simp
  next
    case (Inl e)
    with pc have pe: "popen c w = (Inl e, w2)" by simp
    with Cons.prems have e: "e = FileNotFoundError" and rest: "try_players cs m w2 = Inr (ok, m1, w1)"
      by (cases e; simp)+
    from pe e have t2: "trace w2 = trace w @ [Popen c None]"
      by (auto simp: popen_def split: list.splits option.splits launch.splits)
    from Cons.IH [OF rest] obtain ls where
      ls: "trace w1 = trace w2 @ ls" "\<forall>x \<in> set ls. is_popen x" "length ls \<le> length cs" by blast
    with t2 have "trace w1 = trace w @ (Popen c None # ls)" by simp
    moreover from ls have "\<forall>x \<in> set (Popen c None # ls). is_popen x" by simp
    moreover from ls have "length (Popen c None # ls) \<le> length (c # cs)" by simp
    ultimately show ?thesis by blast
  qed
qed

lemma play_file_unfold:
  "play_file f m w =
     try_players (players (filepath m f)) (fst (stop_playback m w)) (snd (stop_playback m w))"
  by (simp add: play_file_def split_beta filepath_def stop_playback_fields)

subsection \<open>One session at a time\<close>

lemma filter_eq_upt: "p < n \<Longrightarrow> filter (\<lambda>q. q = p) [0 ..< n] = [p]"
  by (induction n) (auto simp: less_Suc_eq)

lemma live_pids_single: "\<forall>q. proc_alive w q = (q = p) \<Longrightarrow> live_pids w = [p]"
proof -
  assume a: "\<forall>q. proc_alive w q = (q = p)"
  then have "proc_alive w p" by simp
  then have "p < length (procs w)" by (simp add: proc_alive_def)
  moreover from a have "proc_alive w = (\<lambda>q. q = p)" by (simp add: fun_eq_iff)
  ultimately show ?thesis by (simp add: live_pids_def filter_eq_upt)
qed

lemma live_pids_none: "\<forall>q. \<not> proc_alive w q \<Longrightarrow> live_pids w = []"
  by (simp add: live_pids_def)

lemma play_file_session:
  assumes ss: "single_session m w" and pf: "play_file f m w = Inr (ok, m1, w1)"
  shows "(ok \<longrightarrow> (\<exists>p. get_process (state m1) = Some p \<and> length (procs w) \<le> p
                    \<and> live_pids w1 = [p]
                    \<and> argv (procs w1 ! p) \<in> set (players (filepath m f))))
       \<and> (\<not> ok \<longrightarrow> get_process (state m1) = None \<and> live_pids w1 = [])"
proof (cases ok)
  case True
  with pf have "try_players (players (filepath m f)) (fst (stop_playback m w)) (snd (stop_playback m w))
                = Inr (True, m1, w1)" by (simp add: play_file_unfold)
  from try_players_True [OF this] obtain p cmd where
    p: "get_process (state m1) = Some p" "length (procs (snd (stop_playback m w))) \<le> p"
       "cmd \<in> set (players (filepath m f))" "argv (procs w1 ! p) = cmd"
       "\<forall>q. proc_alive w1 q = (proc_alive (snd (stop_playback m w)) q \<or> q = p)" by blast
  from p(5) stop_playback_no_live [OF ss] have "\<forall>q. proc_alive w1 q = (q = p)" by simp
  then have "live_pids w1 = [p]" by (rule live_pids_single)
  with p True show ?thesis by (simp add: stop_playback_world)
next
  case False
  with pf have "try_players (players (filepath m f)) (fst (stop_playback m w)) (snd (stop_playback m w))
                = Inr (False, m1, w1)" by (simp add: play_file_unfold)
  from try_players_False [OF this] have
    f: "m1 = fst (stop_playback m w)" "procs w1 = procs (snd (stop_playback m w))" by simp_all
  from f(2) stop_playback_no_live [OF ss] have "\<forall>q. \<not> proc_alive w1 q"
    by (simp add: proc_alive_def)
  then have "live_pids w1 = []" by (rule live_pids_none)
  with f False show ?thesis by (simp add: stop_playback_slot)
qed

lemma play_file_keeps_single:
  assumes "single_session m w" and "play_file f m w = Inr (ok, m1, w1)"
  shows "single_session m1 w1 \<and> length (live_pids w1) \<le> 1"
proof -
  from assms(2) have tp: "try_players (players (filepath m f)) (fst (stop_playback m w)) (snd (stop_playback m w))
                = Inr (ok, m1, w1)" by (simp add: play_file_unfold)
  show ?thesis
  proof (cases ok)
    case True
    with tp have "try_players (players (filepath m f)) (fst (stop_playback m w)) (snd (stop_playback m w))
                = Inr (True, m1, w1)" by simp
    from try_players_True [OF this] play_file_session [OF assms] True
    show ?thesis by (auto simp: single_session_def)
  next
    case False
    with play_file_session [OF assms] show ?thesis by (auto simp: single_session_def)
  qed
qed

lemma play_file_trace:
  assumes slot: "get_process (state m) = Some p" and valid: "p < length (procs w)" and pf: "play_file f m w = Inr (ok, m1, w1)"
  shows "\<not> proc_alive w1 p \<and>
         (\<exists>ks ls. trace w1 = trace w @ [Terminate p, Wait p 1] @ ks @ ls
            \<and> set ks \<subseteq> {Kill p} \<and> ls \<noteq> [] \<and> (\<forall>e \<in> set ls. is_popen e))"
proof -
  let ?m = "fst (stop_playback m w)" and ?w = "snd (stop_playback m w)"
  from pf have tp: "try_players (players (filepath m f)) ?m ?w = Inr (ok, m1, w1)"
    by (simp add: play_file_unfold)
  from try_players_trace [OF tp] obtain ls where
    ls: "trace w1 = trace ?w @ ls" "\<forall>e \<in> set ls. is_popen e" "ls = [] \<longrightarrow> players (filepath m f) = []"
    by blast
  have ne: "ls \<noteq> []" using ls(3) by (auto simp: players_def)
  let ?ks = "if proc_alive w p \<and> \<not> heeds_term (procs w ! p) then [Kill p] else []"
  have "trace w1 = trace w @ [Terminate p, Wait p 1] @ ?ks @ ls"
    using ls(1) stop_playback_trace [OF slot, of w] by simp
  moreover have "set ?ks \<subseteq> {Kill p}" by auto
  ultimately have tr: "\<exists>ks ls. trace w1 = trace w @ [Terminate p, Wait p 1] @ ks @ ls
            \<and> set ks \<subseteq> {Kill p} \<and> ls \<noteq> [] \<and> (\<forall>e \<in> set ls. is_popen e)"
    using ne ls(2) by blast
  have dead: "\<not> proc_alive ?w p" by (simp add: stop_playback_alive [OF slot])
  have "\<not> proc_alive w1 p"
  proof (cases ok)
    case False
    with tp have "try_players (players (filepath m f)) ?m ?w = Inr (False, m1, w1)" by simp
    from try_players_False [OF this] have "procs w1 = procs ?w" by simp
    with dead show ?thesis by (simp add: proc_alive_def)
  next
    case True
    with tp have "try_players (players (filepath m f)) ?m ?w = Inr (True, m1, w1)" by simp
    from try_players_True [OF this] obtain q where
      q: "length (procs ?w) \<le> q" "\<forall>r. proc_alive w1 r = (proc_alive ?w r \<or> r = q)" by blast
    show ?thesis
    proof
      assume "proc_alive w1 p"
      with q(2) dead have "p = q" by simp
      with q(1) have "length (procs w) \<le> p" by (simp add: stop_playback_world)
      with valid show False by simp
    qed
  qed
  with tr show ?thesis by simp
qed

subsection \<open>What the operations leave alone, and what they can raise\<close>



lemma randint_ok:
  "a \<le> b \<Longrightarrow> \<exists>r. a \<le> r \<and> r \<le> b \<and>
      randint a b w = Inr (r, w\<lparr>rng := stl (rng w), trace := trace w @ [Randint a b r]\<rparr>)"
proof -
  assume ab: "a \<le> b"
  let ?r = "a + int (shd (rng w) mod nat (b - a + 1))"
  have "shd (rng w) mod nat (b - a + 1) < nat (b - a + 1)" using ab by simp
  then have "?r \<le> b" using ab by linarith
  moreover have "a \<le> ?r" by simp
  ultimately show ?thesis using ab by (auto simp: randint_def Let_def)
qed

lemma py_index_in_range: "0 \<le> i \<Longrightarrow> i < int (length xs) \<Longrightarrow> py_index xs i = Inr (xs ! nat i)"
  by (simp add: py_index_def)

lemma popen_raises: "popen (exe # args) w = (Inl e, w1) \<Longrightarrow> e = FileNotFoundError \<or> e = OSError"
  by (auto simp: popen_def split: option.splits launch.splits)

lemma try_players_raises:
  "try_players cmds m w = Inl e \<Longrightarrow> [] \<notin> set cmds \<Longrightarrow> e = OSError"
proof (induction cmds arbitrary: w)
  case Nil
  then show ?case by simp
next
  case (Cons c cs)
  from Cons.prems(2) obtain exe args where c: "c = exe # args" by (cases c) auto
  obtain r w2 where pc: "popen c w = (r, w2)" by (cases "popen c w")
  show ?case
  proof (cases r)
    case (Inr p)
    with Cons.prems pc show ?thesis by simp
  next
    case (Inl e')
    with pc c have "e' = FileNotFoundError \<or> e' = OSError" by (auto dest: popen_raises)
    then show ?thesis
    proof
      assume "e' = FileNotFoundError"
      with Cons.prems pc Inl have "try_players cs m w2 = Inl e" by simp
      with Cons.IH Cons.prems(2) show ?thesis by simp
    next
      assume "e' = OSError"
      with Cons.prems pc Inl show ?thesis by simp
    qed
  qed
qed

lemma play_file_raises: "play_file f m w = Inl e \<Longrightarrow> e = OSError"
  by (rule try_players_raises [of "players (filepath m f)"])
     (simp_all add: play_file_unfold players_def)

lemma play_random_file_unfold:
  assumes "files m \<noteq> []"
  shows "\<exists>r. 0 \<le> r \<and> r < int (length (files m)) \<and>
           play_random_file dc m w =
             (case play_file (files m ! nat r) m
                     (w\<lparr>rng := stl (rng w),
                        trace := trace w @ [Randint 0 (int (length (files m)) - 1) r]\<rparr>) of
                Inl e \<Rightarrow> Inl e
              | Inr (ok, m2, w2) \<Rightarrow>
                  Inr (set_needs_redraw True (update_scroll dc (m2\<lparr>highlight := r\<rparr>)), w2))"
proof -
  from assms have "0 \<le> int (length (files m)) - 1" by (cases "files m") simp_all
  from randint_ok [OF this, of w] obtain r where
    r: "0 \<le> r" "r \<le> int (length (files m)) - 1"
       "randint 0 (int (length (files m)) - 1) w =
          Inr (r, w\<lparr>rng := stl (rng w), trace := trace w @ [Randint 0 (int (length (files m)) - 1) r]\<rparr>)"
    by blast
  then have "py_index (files m) r = Inr (files m ! nat r)" by (simp add: py_index_in_range)
  with r assms show ?thesis
    by (intro exI [of _ r]) (simp add: play_random_file_def split: sum.splits prod.splits)
qed

lemma play_random_file_raises: "play_random_file dc m w = Inl e \<Longrightarrow> e = OSError"
proof (cases "files m = []")
  case True
  assume "play_random_file dc m w = Inl e"
  with True show ?thesis by (simp add: play_random_file_def)
next
  case False
  assume a: "play_random_file dc m w = Inl e"
  from play_random_file_unfold [OF False, of dc w] obtain r where
    "play_random_file dc m w =
             (case play_file (files m ! nat r) m
                     (w\<lparr>rng := stl (rng w),
                        trace := trace w @ [Randint 0 (int (length (files m)) - 1) r]\<rparr>) of
                Inl e \<Rightarrow> Inl e
              | Inr (ok, m2, w2) \<Rightarrow>
                  Inr (set_needs_redraw True (update_scroll dc (m2\<lparr>highlight := r\<rparr>)), w2))"
    by blast
  with a show ?thesis by (auto split: sum.splits dest: play_file_raises)
qed

lemma try_players_player:
  "try_players cmds m w = Inr (ok, m1, w1) \<Longrightarrow>
     files m1 = files m \<and> highlight m1 = highlight m \<and> start_index m1 = start_index m
     \<and> shuffle_mode m1 = shuffle_mode m \<and> directory m1 = directory m
     \<and> child_finished (state m1) = child_finished (state m)"
proof (induction cmds arbitrary: w)
  case Nil
  then show ?case by simp
next
  case (Cons c cs)
  obtain r w2 where pc: "popen c w = (r, w2)" by (cases "popen c w")
  show ?case
  proof (cases r)
    case (Inr p)
    with Cons.prems pc show ?thesis
      by (auto simp: set_needs_redraw_def set_process_def)
  next
    case (Inl e)
    with Cons.prems pc have "try_players cs m w2 = Inr (ok, m1, w1)"
      by (cases e; simp)
    from Cons.IH [OF this] show ?thesis .
  qed
qed

lemma play_file_player:
  "play_file f m w = Inr (ok, m1, w1) \<Longrightarrow>
     files m1 = files m \<and> highlight m1 = highlight m \<and> start_index m1 = start_index m
     \<and> shuffle_mode m1 = shuffle_mode m \<and> directory m1 = directory m
     \<and> child_finished (state m1) = child_finished (state m)"
  using try_players_player [of "players (filepath m f)" "fst (stop_playback m w)"
          "snd (stop_playback m w)" ok m1 w1]
  by (simp add: play_file_unfold stop_playback_fields)

lemma play_file_trace_ext:
  "play_file f m w = Inr (ok, m1, w1) \<Longrightarrow> \<exists>ls. trace w1 = trace w @ ls"
proof -
  assume "play_file f m w = Inr (ok, m1, w1)"
  then have "try_players (players (filepath m f)) (fst (stop_playback m w)) (snd (stop_playback m w))
              = Inr (ok, m1, w1)" by (simp add: play_file_unfold)
  from try_players_trace [OF this] obtain ls where
    ls: "trace w1 = trace (snd (stop_playback m w)) @ ls" by blast
  show ?thesis
  proof (cases "get_process (state m)")
    case None
    with ls show ?thesis by (simp add: stop_playback_None)
  next
    case (Some p)
    from ls stop_playback_trace [OF Some, of w] show ?thesis by simp
  qed
qed

lemma update_scroll_fields:
  "highlight (update_scroll dc m) = highlight m \<and> files (update_scroll dc m) = files m
   \<and> state (update_scroll dc m) = state m \<and> shuffle_mode (update_scroll dc m) = shuffle_mode m
   \<and> directory (update_scroll dc m) = directory m"
  by (simp add: update_scroll_def Let_def)

lemma play_random_file_player:
  assumes "play_random_file dc m w = Inr (m1, w1)"
  shows "files m1 = files m \<and> shuffle_mode m1 = shuffle_mode m
     \<and> child_finished (state m1) = child_finished (state m)"
proof (cases "files m = []")
  case True
  with assms show ?thesis by (simp add: play_random_file_def)
next
  case False
  from play_random_file_unfold [OF False, of dc w] obtain r where
    r: "play_random_file dc m w =
             (case play_file (files m ! nat r) m
                     (w\<lparr>rng := stl (rng w),
                        trace := trace w @ [Randint 0 (int (length (files m)) - 1) r]\<rparr>) of
                Inl e \<Rightarrow> Inl e
              | Inr (ok, m2, w2) \<Rightarrow>
                  Inr (set_needs_redraw True (update_scroll dc (m2\<lparr>highlight := r\<rparr>)), w2))"
    by blast
  with assms obtain ok m2 where
    pf: "play_file (files m ! nat r) m
           (w\<lparr>rng := stl (rng w), trace := trace w @ [Randint 0 (int (length (files m)) - 1) r]\<rparr>)
         = Inr (ok, m2, w1)"
    and m1: "m1 = set_needs_redraw True (update_scroll dc (m2\<lparr>highlight := r\<rparr>))"
    by (auto split: sum.splits)
  from play_file_player [OF pf] m1 show ?thesis
    by (simp add: set_needs_redraw_def update_scroll_fields)
qed

lemma play_random_file_draws:
  assumes "files m \<noteq> []" and "play_random_file dc m w = Inr (m1, w1)"
  shows "\<exists>r ls. trace w1 = trace w @ Randint 0 (int (length (files m)) - 1) r # ls"
proof -
  from play_random_file_unfold [OF assms(1), of dc w] obtain r where
    r: "play_random_file dc m w =
             (case play_file (files m ! nat r) m
                     (w\<lparr>rng := stl (rng w),
                        trace := trace w @ [Randint 0 (int (length (files m)) - 1) r]\<rparr>) of
                Inl e \<Rightarrow> Inl e
              | Inr (ok, m2, w2) \<Rightarrow>
                  Inr (set_needs_redraw True (update_scroll dc (m2\<lparr>highlight := r\<rparr>)), w2))"
    by blast
  with assms(2) obtain ok m2 where
    pf: "play_file (files m ! nat r) m
           (w\<lparr>rng := stl (rng w), trace := trace w @ [Randint 0 (int (length (files m)) - 1) r]\<rparr>)
         = Inr (ok, m2, w1)"
    by (auto split: sum.splits)
  from play_file_trace_ext [OF pf] show ?thesis by auto
qed

lemma handle_key_child_finished:
  assumes "handle_key dc ch m w = Inr (c, m1, w1)"
  shows "child_finished (state m1) = child_finished (state m)"
proof -
  let ?m = "set_needs_redraw True m"
  have cf: "child_finished (state ?m) = child_finished (state m)" by (simp add: set_needs_redraw_def)
  have pf: "child_finished (state m2) = child_finished (state m)"
    if "play_file f (?m\<lparr>shuffle_mode := b\<rparr>) w = Inr (ok, m2, w2)" for f b ok m2 w2
    using play_file_player [OF that] by (simp add: set_needs_redraw_def)
  have pr: "child_finished (state m2) = child_finished (state m)"
    if "play_random_file dc (?m\<lparr>shuffle_mode := b\<rparr>) w = Inr (m2, w2)" for b m2 w2
    using play_random_file_player [OF that] by (simp add: set_needs_redraw_def)
  have pr': "child_finished (state m2) = child_finished (state m)"
    if "play_random_file dc ?m w = Inr (m2, w2)" for m2 w2
    using play_random_file_player [OF that] by (simp add: set_needs_redraw_def)
  have sp: "child_finished (state m2) = child_finished (state m)"
    if "stop_playback ?m w = (m2, w2)" for m2 w2
    using stop_playback_fields [of ?m w] that by (simp add: set_needs_redraw_def)
  have fl: "child_finished (state (?m\<lparr>highlight := h\<rparr>)) = child_finished (state m)"
    "child_finished (state (?m\<lparr>highlight := h, start_index := i\<rparr>)) = child_finished (state m)"
    "child_finished (state (?m\<lparr>shuffle_mode := b\<rparr>)) = child_finished (state m)"
    "child_finished (state (set_needs_redraw False ?m)) = child_finished (state m)" for h i b
    by (simp_all add: set_needs_redraw_def)
  from assms show ?thesis
    unfolding handle_key_def Let_def
    by (auto simp: update_scroll_fields cf fl
             split: if_splits sum.splits prod.splits dest: pf pr pr' sp)
qed

text \<open>When no executable refuses to launch, \<^verbatim>\<open>play_file\<close> returns.\<close>

lemma try_players_returns:
  assumes "\<forall>exe. map_of (commands w) exe \<noteq> Some Refused" and "[] \<notin> set cmds"
  shows "\<exists>ok m1 w1. try_players cmds m w = Inr (ok, m1, w1)"
  using assms
proof (induction cmds arbitrary: w)
  case Nil
  show ?case by (simp del: ex_simps) blast
next
  case (Cons c cs)
  from Cons.prems(2) obtain exe args where c: "c = exe # args" by (cases c) auto
  obtain r w2 where pc: "popen c w = (r, w2)" by (cases "popen c w")
  show ?case
  proof (cases r)
    case (Inr p)
    with pc have "try_players (c # cs) m w =
        Inr (True, set_needs_redraw True (m\<lparr>state := set_process (Some p) (state m)\<rparr>), w2)"
      by simp
    then show ?thesis by blast
  next
    case (Inl e)
    with pc have pe: "popen c w = (Inl e, w2)" by simp
    with c Cons.prems(1) have e: "e = FileNotFoundError"
      by (auto simp: popen_def split: option.splits launch.splits)
    from popen_Inl [OF pe] Cons.prems have
      "\<exists>ok m1 w1. try_players cs m w2 = Inr (ok, m1, w1)"
      by (intro Cons.IH) simp_all
    then obtain ok m1 w1 where "try_players cs m w2 = Inr (ok, m1, w1)" by blast
    with pe e have "try_players (c # cs) m w = Inr (ok, m1, w1)" by simp
    then show ?thesis by blast
  qed
qed

lemma play_file_returns:
  assumes "\<forall>exe. map_of (commands w) exe \<noteq> Some Refused"
  shows "\<exists>ok m1 w1. play_file f m w = Inr (ok, m1, w1)"
proof -
  from assms have "\<forall>exe. map_of (commands (snd (stop_playback m w))) exe \<noteq> Some Refused"
    by (simp add: stop_playback_world)
  note c = this
  have "[] \<notin> set (players (filepath m f))" by (simp add: players_def)
  from try_players_returns [OF c this, of "fst (stop_playback m w)"]
  show ?thesis by (simp only: play_file_unfold)
qed

subsection \<open>The viewport under navigation keys\<close>

lemma update_scroll_viewport:
  "0 \<le> highlight m \<Longrightarrow> 1 \<le> dc \<Longrightarrow> viewport_ok dc (update_scroll dc m)"
  by (auto simp: viewport_ok_def update_scroll_def Let_def)

lemma handle_key_nav:
  assumes nav: "is_nav_key ch" and lib: "files m \<noteq> []" and dc: "1 \<le> dc"
    and ok: "viewport_ok dc m"
  shows "\<exists>m1. handle_key dc ch m w = Inr (Continue, m1, w) \<and> viewport_ok dc m1
           \<and> files m1 = files m"
proof -
  let ?m = "set_needs_redraw True m"
  have v: "viewport_ok dc ?m" "files ?m = files m" "highlight ?m = highlight m"
    using ok by (simp_all add: viewport_ok_def set_needs_redraw_def)
  have h0: "0 \<le> highlight m" using ok by (simp add: viewport_ok_def)
  have n: "1 \<le> int (length (files m))" using lib by (cases "files m") simp_all
  have us: "viewport_ok dc (update_scroll dc (?m\<lparr>highlight := h\<rparr>))
            \<and> files (update_scroll dc (?m\<lparr>highlight := h\<rparr>)) = files m" if "0 \<le> h" for h
    using that dc update_scroll_viewport [of "?m\<lparr>highlight := h\<rparr>" dc]
    by (simp add: update_scroll_fields v)
  have home: "viewport_ok dc (?m\<lparr>highlight := 0, start_index := 0\<rparr>)"
    using dc by (simp add: viewport_ok_def)
  from nav consider "ch = KEY_UP" | "ch = KEY_DOWN" | "ch = KEY_PPAGE" | "ch = KEY_NPAGE"
    | "ch = KEY_HOME" | "ch = KEY_END"
    by (auto simp: is_nav_key_def)
  then show ?thesis
  proof cases
    case 1
    then show ?thesis using us [of "highlight m - 1"] v h0
      by (simp add: handle_key_def Let_def)
  next
    case 2
    then show ?thesis using us [of "highlight m + 1"] v h0
      by (simp add: handle_key_def Let_def KEY_UP_def KEY_DOWN_def)
  next
    case 3
    have "0 \<le> max 0 (highlight m - dc)" by simp
    from us [OF this] 3 v show ?thesis
      by (simp add: handle_key_def Let_def KEY_UP_def KEY_DOWN_def KEY_PPAGE_def)
  next
    case 4
    have "0 \<le> min (int (length (files m)) - 1) (highlight m + dc)" using h0 n dc lib by simp
    from us [OF this] 4 v show ?thesis
      by (simp add: handle_key_def Let_def KEY_UP_def KEY_DOWN_def KEY_PPAGE_def KEY_NPAGE_def)
  next
    case 5
    then show ?thesis using home v
      by (simp add: handle_key_def Let_def KEY_UP_def KEY_DOWN_def KEY_PPAGE_def KEY_NPAGE_def
            KEY_HOME_def set_needs_redraw_def)
  next
    case 6
    have "0 \<le> int (length (files m)) - 1" using n lib by simp
    from us [OF this] 6 v show ?thesis
      by (simp add: handle_key_def Let_def KEY_UP_def KEY_DOWN_def KEY_PPAGE_def KEY_NPAGE_def
            KEY_HOME_def KEY_END_def)
  qed
qed

lemma handle_keys_nav:
  assumes "\<forall>ch \<in> set chs. is_nav_key ch" and "files m \<noteq> []" and "1 \<le> dc"
    and "viewport_ok dc m"
  shows "\<exists>m1. handle_keys dc chs m w = Inr (Continue, m1, w) \<and> viewport_ok dc m1
           \<and> files m1 = files m"
  using assms
proof (induction chs arbitrary: m)
  case Nil
  then show ?case by simp
next
  case (Cons ch chs)
  from Cons.prems have "is_nav_key ch" by simp
  from handle_key_nav [OF this Cons.prems(2,3,4), of w] obtain m1 where
    m1: "handle_key dc ch m w = Inr (Continue, m1, w)" "viewport_ok dc m1" "files m1 = files m"
    by blast
  from Cons.prems m1 have "\<exists>m2. handle_keys dc chs m1 w = Inr (Continue, m2, w)
      \<and> viewport_ok dc m2 \<and> files m2 = files m1"
    by (intro Cons.IH) simp_all
  with m1 show ?case by simp
qed

subsection \<open>The shuffle key\<close>

lemma players_last: "cmd \<in> set (players path) \<Longrightarrow> last cmd = path"
  by (auto simp: players_def)

lemma play_file_idle:
  assumes idle: "get_process (state m) = None" and pf: "play_file f m w = Inr (ok, m1, w1)"
  shows "is_playing m1 = ok
       \<and> (ok \<longrightarrow> (\<exists>p. get_process (state m1) = Some p \<and> proc_alive w1 p
                      \<and> length (procs w) \<le> p \<and> last (argv (procs w1 ! p)) = filepath m f))"
proof (cases ok)
  case True
  with pf idle have "try_players (players (filepath m f)) m w = Inr (True, m1, w1)"
    by (simp add: play_file_unfold stop_playback_None)
  from try_players_True [OF this] obtain p cmd where
    p: "get_process (state m1) = Some p" "length (procs w) \<le> p"
       "cmd \<in> set (players (filepath m f))" "argv (procs w1 ! p) = cmd"
       "\<forall>q. proc_alive w1 q = (proc_alive w q \<or> q = p)" by blast
  from p(5) have "proc_alive w1 p" by simp
  with p True players_last [OF p(3)] show ?thesis by (simp add: is_playing_def)
next
  case False
  with pf idle have "try_players (players (filepath m f)) m w = Inr (False, m1, w1)"
    by (simp add: play_file_unfold stop_playback_None)
  from try_players_False [OF this] idle False show ?thesis by (simp add: is_playing_def)
qed

lemma handle_key_shuffle:
  assumes "ch = ord CHR ''s'' \<or> ch = ord CHR ''S''"
  shows "handle_key dc ch m w =
     (if \<not> shuffle_mode m \<and> get_process (state m) = None then
        (case play_random_file dc ((set_needs_redraw True m)\<lparr>shuffle_mode := True\<rparr>) w of
           Inl e \<Rightarrow> Inl e
         | Inr (m2, w2) \<Rightarrow> Inr (Continue, m2, w2))
      else Inr (Continue, (set_needs_redraw True m)\<lparr>shuffle_mode := \<not> shuffle_mode m\<rparr>, w))"
proof -
  from assms have k: "ch \<noteq> KEY_UP" "ch \<noteq> KEY_DOWN" "ch \<noteq> KEY_PPAGE" "ch \<noteq> KEY_NPAGE"
    "ch \<noteq> KEY_HOME" "ch \<noteq> KEY_END" "ch \<noteq> 10" "ch \<noteq> 13" "ch \<noteq> ord CHR '' ''"
    by (auto simp: ord_def KEY_UP_def KEY_DOWN_def KEY_PPAGE_def KEY_NPAGE_def KEY_HOME_def
          KEY_END_def)
  have s: "shuffle_mode (set_needs_redraw True m) = shuffle_mode m"
    "get_process (state (set_needs_redraw True m\<lparr>shuffle_mode := b\<rparr>)) = get_process (state m)"
    "get_process (state (set_needs_redraw True m)) = get_process (state m)" for b
    by (simp_all add: set_needs_redraw_def get_process_def)
  have "handle_key dc ch m w =
     (let m1 = (set_needs_redraw True m)\<lparr>shuffle_mode := \<not> shuffle_mode m\<rparr>
      in if shuffle_mode m1 \<and> get_process (state m1) = None then
           (case play_random_file dc m1 w of
              Inl e \<Rightarrow> Inl e
            | Inr (m2, w2) \<Rightarrow> Inr (Continue, m2, w2))
         else Inr (Continue, m1, w))"
    using assms k by (simp add: handle_key_def Let_def s)
  then show ?thesis
    by (cases "shuffle_mode m") (simp_all add: Let_def s)
qed

subsection \<open>One pass of the loop\<close>

lemma draw_interface_player:
  "child_finished (state (fst (draw_interface m w))) = child_finished (state m)
   \<and> shuffle_mode (fst (draw_interface m w)) = shuffle_mode m
   \<and> files (fst (draw_interface m w)) = files m
   \<and> get_process (state (fst (draw_interface m w))) = get_process (state m)
   \<and> highlight (fst (draw_interface m w)) = highlight m"
  by (simp add: draw_interface_def set_needs_redraw_def get_process_def)

lemma draw_interface_world:
  "procs (snd (draw_interface m w)) = procs w \<and> rng (snd (draw_interface m w)) = rng w
   \<and> commands (snd (draw_interface m w)) = commands w"
  by (simp add: draw_interface_def)

lemma draw_interface_signal:
  "draw_interface (set_child_finished b m) w =
     (set_child_finished b (fst (draw_interface m w)), snd (draw_interface m w))"
  by (simp add: draw_interface_def set_child_finished_def set_needs_redraw_def)

lemma iteration_unfold:
  "iteration term_y inp m w =
     (case handle_child_finished (max 1 (term_y - 13)) (fst (draw_interface m w))
             (snd (draw_interface m w)) of
        Inl e \<Rightarrow> Inl e
      | Inr (m2, w2) \<Rightarrow> handle_input (max 1 (term_y - 13)) inp m2 w2)"
  by (simp add: iteration_def Let_def split_beta)

lemma stop_playback_trace_ext: "\<exists>ls. trace (snd (stop_playback m w)) = trace w @ ls"
proof (cases "get_process (state m)")
  case None
  then show ?thesis by (simp add: stop_playback_None)
next
  case (Some p)
  from stop_playback_trace [OF Some, of w] show ?thesis by blast
qed

lemma play_random_file_trace_ext:
  assumes "play_random_file dc m w = Inr (m1, w1)"
  shows "\<exists>ls. trace w1 = trace w @ ls"
proof (cases "files m = []")
  case True
  with assms show ?thesis by (simp add: play_random_file_def)
next
  case False
  from play_random_file_draws [OF False assms] show ?thesis by blast
qed

lemma handle_key_trace_ext:
  assumes "handle_key dc ch m w = Inr (c, m1, w1)"
  shows "\<exists>ls. trace w1 = trace w @ ls"
proof -
  have sp: "\<exists>ls. trace w2 = trace w @ ls" if "stop_playback m' w = (m2, w2)" for m' m2 w2
    using stop_playback_trace_ext [of m' w] that by simp
  from assms show ?thesis
    unfolding handle_key_def Let_def
    by (auto split: if_splits sum.splits prod.splits
          dest: play_file_trace_ext play_random_file_trace_ext sp)
qed

lemma handle_input_trace_ext:
  assumes "handle_input dc inp m w = Inr (c, m1, w1)"
  shows "\<exists>ls. trace w1 = trace w @ ls"
  using assms
  by (auto simp: handle_input_def split: input.splits if_splits dest: handle_key_trace_ext)

lemma handle_input_child_finished:
  assumes "handle_input dc inp m w = Inr (c, m1, w1)"
  shows "child_finished (state m1) = child_finished (state m)"
  using assms
  by (auto simp: handle_input_def split: input.splits if_splits dest: handle_key_child_finished)

lemma handle_input_no_key:
  "handle_input dc (Getch ERR) m w = Inr (Continue, m, w)"
  by (simp add: handle_input_def)

lemma play_random_file_result:
  assumes "files m \<noteq> []" and "play_random_file dc m w = Inr (m1, w1)"
  shows "\<exists>r ls. 0 \<le> r \<and> r < int (length (files m)) \<and> highlight m1 = r
           \<and> trace w1 = trace w @ Randint 0 (int (length (files m)) - 1) r # ls"
proof -
  from play_random_file_unfold [OF assms(1), of dc w] obtain r where
    b: "0 \<le> r" "r < int (length (files m))" and
    r: "play_random_file dc m w =
             (case play_file (files m ! nat r) m
                     (w\<lparr>rng := stl (rng w),
                        trace := trace w @ [Randint 0 (int (length (files m)) - 1) r]\<rparr>) of
                Inl e \<Rightarrow> Inl e
              | Inr (ok, m2, w2) \<Rightarrow>
                  Inr (set_needs_redraw True (update_scroll dc (m2\<lparr>highlight := r\<rparr>)), w2))"
    by blast
  with assms(2) obtain ok m2 where
    pf: "play_file (files m ! nat r) m
           (w\<lparr>rng := stl (rng w), trace := trace w @ [Randint 0 (int (length (files m)) - 1) r]\<rparr>)
         = Inr (ok, m2, w1)"
    and m1: "m1 = set_needs_redraw True (update_scroll dc (m2\<lparr>highlight := r\<rparr>))"
    by (auto split: sum.splits)
  from m1 have "highlight m1 = r" by (simp add: set_needs_redraw_def update_scroll_fields)
  moreover from play_file_trace_ext [OF pf] obtain ls where
    "trace w1 = trace w @ Randint 0 (int (length (files m)) - 1) r # ls" by auto
  ultimately show ?thesis using b by blast
qed

lemma handle_child_finished_cases:
  "handle_child_finished dc m w =
     (if child_finished (state m) then
        (if shuffle_mode m then play_random_file dc (set_child_finished False m) w
         else Inr (set_child_finished False m, w))
      else Inr (m, w))"
  by (simp add: handle_child_finished_def set_child_finished_def)

lemma handle_child_finished_clears:
  assumes "handle_child_finished dc m w = Inr (m1, w1)"
  shows "\<not> child_finished (state m1)"
proof (cases "child_finished (state m) \<and> shuffle_mode m")
  case True
  with assms have "play_random_file dc (set_child_finished False m) w = Inr (m1, w1)"
    by (simp add: handle_child_finished_cases)
  from play_random_file_player [OF this] show ?thesis by (simp add: set_child_finished_def)
next
  case False
  with assms show ?thesis
    by (auto simp: handle_child_finished_cases set_child_finished_def split: if_splits)
qed

subsection \<open>A key that is bound to nothing\<close>

lemma unknown_key:
  "handle_key dc (ord CHR ''x'') m w = Inr (Continue, set_needs_redraw False m, w)"
  by (simp add: handle_key_def Let_def ord_def set_needs_redraw_def
        KEY_UP_def KEY_DOWN_def KEY_PPAGE_def KEY_NPAGE_def KEY_HOME_def KEY_END_def)

subsection \<open>Unfolding for concrete runs\<close>

lemmas evals = handle_child_finished_def play_random_file_def randint_def py_index_def
  play_file_def stop_playback_def get_process_def demo_player_def mpv_world_def
  MediaPlayer_def players_def filepath_def path_root_def path_parts_def path_str_def
          popen_def set_needs_redraw_def set_process_def
  set_child_finished_def finished_player_def update_scroll_def Let_def mpv_cmd_def
  iteration_def handle_input_def draw_interface_def handle_key_def ord_def
  KEY_UP_def KEY_DOWN_def KEY_PPAGE_def KEY_NPAGE_def KEY_HOME_def KEY_END_def ERR_def

section \<open>The contract of stop_playback\<close>

text \<open>
  Claim C4. When the slot holds a session, \<^verbatim>\<open>stop_playback\<close> asks the child to terminate,
  waits for it with a timeout of one second, kills it exactly when it is still alive after
  that wait, and in every case leaves the child dead, the slot empty and the dirty flag set.
  When the slot is empty it returns the player and the world as they were. Calling it again
  right after a call changes nothing.
\<close>

theorem stop_playback_contract:
  "(get_process (state m) = Some p \<longrightarrow>
      trace (snd (stop_playback m w)) =
        trace w @ [Terminate p, Wait p 1] @
          (if proc_alive w p \<and> \<not> heeds_term (procs w ! p) then [Kill p] else [])
      \<and> \<not> proc_alive (snd (stop_playback m w)) p
      \<and> get_process (state (fst (stop_playback m w))) = None
      \<and> needs_redraw (state (fst (stop_playback m w))))
   \<and> (get_process (state m) = None \<longrightarrow> stop_playback m w = (m, w))
   \<and> (case stop_playback m w of (m1, w1) \<Rightarrow> stop_playback m1 w1 = (m1, w1))"
proof -
  have a: "get_process (state (fst (stop_playback m w))) = None"
    by (rule stop_playback_slot)
  have b: "stop_playback (fst (stop_playback m w)) (snd (stop_playback m w))
           = (fst (stop_playback m w), snd (stop_playback m w))"
    using a by (rule stop_playback_None)
  have c: "get_process (state m) = Some p \<Longrightarrow> needs_redraw (state (fst (stop_playback m w)))"
    by (simp add: stop_playback_Some set_needs_redraw_def)
  show ?thesis
    using a b c by (simp add: stop_playback_trace stop_playback_alive stop_playback_None split_beta)
qed

theorem stop_playback_contract_witness:
  "get_process (state (demo_player\<lparr>state := set_process (Some 0) (state demo_player)\<rparr>)) = Some 0
   \<and> trace (snd (stop_playback (demo_player\<lparr>state := set_process (Some 0) (state demo_player)\<rparr>)
                     (mpv_world\<lparr>procs := [\<lparr>argv = [''mpv''], alive = True, heeds_term = False\<rparr>]\<rparr>)))
       = [Terminate 0, Wait 0 1, Kill 0]
   \<and> get_process (state demo_player) = None
   \<and> stop_playback demo_player mpv_world = (demo_player, mpv_world)"
  using stop_playback_contract [of "demo_player\<lparr>state := set_process (Some 0) (state demo_player)\<rparr>" 0
          "mpv_world\<lparr>procs := [\<lparr>argv = [''mpv''], alive = True, heeds_term = False\<rparr>]\<rparr>"]
        stop_playback_contract [of demo_player 0 mpv_world]
  by (simp add: demo_player_def mpv_world_def MediaPlayer_def set_process_def get_process_def
        proc_alive_def)

section \<open>Sessions started by play_file\<close>

text \<open>
  Claim C1, as the code has it. \<^verbatim>\<open>play_file\<close> stops the session in the slot before it
  tries to launch anything. The freshly constructed player, with no child started, is in a
  state where every running child is the one in the session slot. From any such state, a
  call of \<^verbatim>\<open>play_file\<close> that returns leaves such a state again with at most one child
  running, and so does a second call right after it. When the second call reports success,
  the slot holds a child that the second call started (its handle is new, its command line
  is one of the player commands for the second file) and that child is the only one
  running; when it reports failure, nothing is playing and no child is running. A session
  the first call left in the slot is dead afterwards, and the log shows it being terminated
  and waited for (and killed when needed) before the second call's first launch attempt.
\<close>

theorem play_file_single_session:
  assumes "single_session m w"
      and "play_file f1 m w = Inr (ok1, m1, w1)"
      and "play_file f2 m1 w1 = Inr (ok2, m2, w2)"
  shows "single_session (MediaPlayer dir fs) (w\<lparr>procs := []\<rparr>)
       \<and> single_session m1 w1 \<and> single_session m2 w2
       \<and> length (live_pids w1) \<le> 1 \<and> length (live_pids w2) \<le> 1
       \<and> (ok2 \<longrightarrow> (\<exists>p2. get_process (state m2) = Some p2 \<and> live_pids w2 = [p2]
                        \<and> length (procs w1) \<le> p2
                        \<and> argv (procs w2 ! p2) \<in> set (players (filepath m1 f2))))
       \<and> (\<not> ok2 \<longrightarrow> \<not> is_playing m2 \<and> live_pids w2 = [])
       \<and> (\<forall>p1. get_process (state m1) = Some p1 \<longrightarrow>
              \<not> proc_alive w2 p1
              \<and> (\<exists>ks ls. trace w2 = trace w1 @ [Terminate p1, Wait p1 1] @ ks @ ls
                    \<and> set ks \<subseteq> {Kill p1} \<and> ls \<noteq> [] \<and> (\<forall>e \<in> set ls. is_popen e)))"
proof -
  have init: "single_session (MediaPlayer dir fs) (w\<lparr>procs := []\<rparr>)"
    by (simp add: single_session_def live_pids_def MediaPlayer_def get_process_def)
  from play_file_keeps_single [OF assms(1,2)]
  have s1: "single_session m1 w1" and l1: "length (live_pids w1) \<le> 1" by simp_all
  from play_file_keeps_single [OF s1 assms(3)]
  have s2: "single_session m2 w2" and l2: "length (live_pids w2) \<le> 1" by simp_all
  from play_file_session [OF s1 assms(3)]
  have second: "ok2 \<longrightarrow> (\<exists>p2. get_process (state m2) = Some p2 \<and> live_pids w2 = [p2]
                        \<and> length (procs w1) \<le> p2
                        \<and> argv (procs w2 ! p2) \<in> set (players (filepath m1 f2)))"
    and none: "\<not> ok2 \<longrightarrow> \<not> is_playing m2 \<and> live_pids w2 = []"
    by (auto simp: is_playing_def)
  have first: "\<not> proc_alive w2 p1
              \<and> (\<exists>ks ls. trace w2 = trace w1 @ [Terminate p1, Wait p1 1] @ ks @ ls
                    \<and> set ks \<subseteq> {Kill p1} \<and> ls \<noteq> [] \<and> (\<forall>e \<in> set ls. is_popen e))"
    if slot: "get_process (state m1) = Some p1" for p1
  proof -
    from s1 slot have "p1 < length (procs w1)" by (simp add: single_session_def)
    from play_file_trace [OF slot this assms(3)] show ?thesis .
  qed
  from init s1 s2 l1 l2 second none first show ?thesis by blast
qed

theorem play_file_single_session_witness:
  "single_session demo_player mpv_world
   \<and> play_file ''a.mp3'' demo_player mpv_world = Inr (True, playing 0, after_first)
   \<and> play_file ''b.mp3'' (playing 0) after_first = Inr (True, playing 1, after_second)
   \<and> live_pids after_first = [0] \<and> live_pids after_second = [1]
   \<and> \<not> proc_alive after_second 0
   \<and> trace after_second
       = trace after_first @ [Terminate 0, Wait 0 1] @ [Popen (mpv_cmd ''b.mp3'') (Some 1)]"
proof -
  have h0: "single_session demo_player mpv_world"
    by (simp add: single_session_def live_pids_def demo_player_def mpv_world_def MediaPlayer_def
          get_process_def)
  have h1: "play_file ''a.mp3'' demo_player mpv_world = Inr (True, playing 0, after_first)"
    by (simp add: play_file_def stop_playback_def get_process_def demo_player_def mpv_world_def
          MediaPlayer_def players_def filepath_def path_root_def path_parts_def path_str_def
          popen_def set_needs_redraw_def set_process_def
          playing_def after_first_def mpv_cmd_def)
  have h2: "play_file ''b.mp3'' (playing 0) after_first = Inr (True, playing 1, after_second)"
    by (simp add: play_file_def stop_playback_def get_process_def demo_player_def mpv_world_def
          MediaPlayer_def players_def filepath_def path_root_def path_parts_def path_str_def
          popen_def set_needs_redraw_def set_process_def
          terminate_def wait_def kill_def set_dead_def proc_alive_def Let_def
          playing_def after_first_def after_second_def mpv_cmd_def)
  from play_file_single_session [OF h0 h1 h2] h0 h1 h2 show ?thesis
    by (simp add: live_pids_def proc_alive_def after_first_def after_second_def mpv_world_def)
qed

text \<open>
  As the specification words it, claim C1 has no condition on the state and promises that
  the second session is live after two calls. On a machine where no candidate player is
  installed both calls return \<^verbatim>\<open>False\<close> and no session is live. And in the state that
  the monitor's lost update leaves behind, where a player runs that the slot no longer
  holds, \<^verbatim>\<open>play_file\<close> starts a second player beside it.
\<close>

theorem play_file_twice_counterexample:
  "single_session demo_player bare_world
   \<and> play_file ''a.mp3'' demo_player bare_world =
       Inr (False, demo_player,
            bare_world\<lparr>trace := [Popen [''mpv'', ''--no-terminal'', ''--quiet'', ''/music/a.mp3''] None,
                                 Popen [''mplayer'', ''-quiet'', ''/music/a.mp3''] None,
                                 Popen [''vlc'', ''--intf'', ''dummy'', ''/music/a.mp3''] None]\<rparr>)
   \<and> play_file ''b.mp3'' demo_player
         (bare_world\<lparr>trace := [Popen [''mpv'', ''--no-terminal'', ''--quiet'', ''/music/a.mp3''] None,
                                 Popen [''mplayer'', ''-quiet'', ''/music/a.mp3''] None,
                                 Popen [''vlc'', ''--intf'', ''dummy'', ''/music/a.mp3''] None]\<rparr>) =
       Inr (False, demo_player,
            bare_world\<lparr>trace := [Popen [''mpv'', ''--no-terminal'', ''--quiet'', ''/music/a.mp3''] None,
                                 Popen [''mplayer'', ''-quiet'', ''/music/a.mp3''] None,
                                 Popen [''vlc'', ''--intf'', ''dummy'', ''/music/a.mp3''] None,
                                 Popen [''mpv'', ''--no-terminal'', ''--quiet'', ''/music/b.mp3''] None,
                                 Popen [''mplayer'', ''-quiet'', ''/music/b.mp3''] None,
                                 Popen [''vlc'', ''--intf'', ''dummy'', ''/music/b.mp3''] None]\<rparr>)
   \<and> \<not> is_playing demo_player \<and> live_pids bare_world = []
   \<and> play_file ''c.mp3'' (finished_player False) after_second =
       Inr (True,
            demo_player\<lparr>state := \<lparr>child_finished = True, mpv_process = Some 2,
                                     needs_redraw = True\<rparr>\<rparr>,
            after_second\<lparr>procs := procs after_second
                            @ [\<lparr>argv = mpv_cmd ''c.mp3'', alive = True, heeds_term = True\<rparr>],
                          trace := trace after_second @ [Popen (mpv_cmd ''c.mp3'') (Some 2)]\<rparr>)
   \<and> live_pids (after_second\<lparr>procs := procs after_second
                            @ [\<lparr>argv = mpv_cmd ''c.mp3'', alive = True, heeds_term = True\<rparr>]\<rparr>)
     = [1, 2]"
proof -
  have a: "single_session demo_player bare_world"
    by (simp add: single_session_def live_pids_def demo_player_def bare_world_def MediaPlayer_def
          get_process_def)
  have b: "play_file ''a.mp3'' demo_player bare_world =
       Inr (False, demo_player,
            bare_world\<lparr>trace := [Popen [''mpv'', ''--no-terminal'', ''--quiet'', ''/music/a.mp3''] None,
                                 Popen [''mplayer'', ''-quiet'', ''/music/a.mp3''] None,
                                 Popen [''vlc'', ''--intf'', ''dummy'', ''/music/a.mp3''] None]\<rparr>)"
    by (simp add: evals bare_world_def)
  have c: "play_file ''b.mp3'' demo_player
         (bare_world\<lparr>trace := [Popen [''mpv'', ''--no-terminal'', ''--quiet'', ''/music/a.mp3''] None,
                                 Popen [''mplayer'', ''-quiet'', ''/music/a.mp3''] None,
                                 Popen [''vlc'', ''--intf'', ''dummy'', ''/music/a.mp3''] None]\<rparr>) =
       Inr (False, demo_player,
            bare_world\<lparr>trace := [Popen [''mpv'', ''--no-terminal'', ''--quiet'', ''/music/a.mp3''] None,
                                 Popen [''mplayer'', ''-quiet'', ''/music/a.mp3''] None,
                                 Popen [''vlc'', ''--intf'', ''dummy'', ''/music/a.mp3''] None,
                                 Popen [''mpv'', ''--no-terminal'', ''--quiet'', ''/music/b.mp3''] None,
                                 Popen [''mplayer'', ''-quiet'', ''/music/b.mp3''] None,
                                 Popen [''vlc'', ''--intf'', ''dummy'', ''/music/b.mp3''] None]\<rparr>)"
    by (simp add: evals bare_world_def)
  have d: "\<not> is_playing demo_player" "live_pids bare_world = []"
    by (simp_all add: is_playing_def demo_player_def MediaPlayer_def get_process_def live_pids_def
          bare_world_def)
  have e: "play_file ''c.mp3'' (finished_player False) after_second =
       Inr (True,
            demo_player\<lparr>state := \<lparr>child_finished = True, mpv_process = Some 2,
                                     needs_redraw = True\<rparr>\<rparr>,
            after_second\<lparr>procs := procs after_second
                            @ [\<lparr>argv = mpv_cmd ''c.mp3'', alive = True, heeds_term = True\<rparr>],
                          trace := trace after_second @ [Popen (mpv_cmd ''c.mp3'') (Some 2)]\<rparr>)"
    by (simp add: evals after_second_def)
  have f: "live_pids (after_second\<lparr>procs := procs after_second
                            @ [\<lparr>argv = mpv_cmd ''c.mp3'', alive = True, heeds_term = True\<rparr>]\<rparr>)
     = [1, 2]"
    by (simp add: live_pids_def proc_alive_def after_second_def upt_rec)
  from a b c d e f show ?thesis by blast
qed



section \<open>Scrolling\<close>

text \<open>
  Claim C6. \<^verbatim>\<open>update_scroll\<close> leaves the highlight alone and sets \<open>start_index\<close> to the
  minimal-scroll value clamped at zero: the old \<open>start_index\<close> when the highlight is inside
  the window, the highlight when it lies above the window, and
  \<open>highlight - display_count + 1\<close> when it lies at or below the window's end, the tests
  being made in the order of the code. For a viewport with non-negative indices the clamp
  does nothing and the three cases hold as equations. For the library
  \<^verbatim>\<open>[a.mp3, b.mp3, c.mp3]\<close> with two visible rows, starting from highlight 0 and
  \<open>start_index\<close> 0, two presses of Down give highlight 2 and \<open>start_index\<close> 1, and Home
  then gives highlight 0 and \<open>start_index\<close> 0.
\<close>

theorem update_scroll_minimal:
  "start_index (update_scroll dc m) =
     max 0 (if start_index m \<le> highlight m \<and> highlight m < start_index m + dc then start_index m
            else if highlight m < start_index m then highlight m
            else highlight m - dc + 1)
   \<and> 0 \<le> start_index (update_scroll dc m)
   \<and> highlight (update_scroll dc m) = highlight m
   \<and> (0 \<le> start_index m \<and> 0 \<le> highlight m \<longrightarrow>
        (start_index m \<le> highlight m \<and> highlight m < start_index m + dc \<longrightarrow>
           start_index (update_scroll dc m) = start_index m)
        \<and> (highlight m < start_index m \<longrightarrow> start_index (update_scroll dc m) = highlight m)
        \<and> (start_index m \<le> highlight m \<and> start_index m + dc \<le> highlight m \<longrightarrow>
             start_index (update_scroll dc m) = highlight m - dc + 1))
   \<and> (\<exists>m2 m3. handle_keys 2 [KEY_DOWN, KEY_DOWN] demo_player w = Inr (Continue, m2, w)
         \<and> highlight m2 = 2 \<and> start_index m2 = 1
         \<and> handle_keys 2 [KEY_HOME] m2 w = Inr (Continue, m3, w)
         \<and> highlight m3 = 0 \<and> start_index m3 = 0)"
proof -
  have a: "start_index (update_scroll dc m) =
     max 0 (if start_index m \<le> highlight m \<and> highlight m < start_index m + dc then start_index m
            else if highlight m < start_index m then highlight m
            else highlight m - dc + 1)"
    by (simp add: update_scroll_def Let_def)
  have b: "0 \<le> start_index (update_scroll dc m)" by (simp add: update_scroll_def Let_def)
  have c: "highlight (update_scroll dc m) = highlight m" by (simp add: update_scroll_fields)
  have d: "start_index (update_scroll dc m) = start_index m"
    if "0 \<le> start_index m" "start_index m \<le> highlight m" "highlight m < start_index m + dc"
    using that by (simp add: a)
  have e: "start_index (update_scroll dc m) = highlight m"
    if "0 \<le> highlight m" "highlight m < start_index m"
    using that by (simp add: a)
  have f: "start_index (update_scroll dc m) = highlight m - dc + 1"
    if "0 \<le> start_index m" "start_index m \<le> highlight m" "start_index m + dc \<le> highlight m"
    using that by (simp add: a)
  have g: "handle_keys 2 [KEY_DOWN, KEY_DOWN] demo_player w
             = Inr (Continue, (set_needs_redraw True demo_player)\<lparr>highlight := 2, start_index := 1\<rparr>, w)"
    by (simp add: handle_key_def update_scroll_def set_needs_redraw_def demo_player_def
          MediaPlayer_def Let_def KEY_UP_def KEY_DOWN_def)
  have h: "handle_keys 2 [KEY_HOME] ((set_needs_redraw True demo_player)\<lparr>highlight := 2, start_index := 1\<rparr>) w
             = Inr (Continue, set_needs_redraw True demo_player, w)"
    by (simp add: handle_key_def update_scroll_def set_needs_redraw_def demo_player_def
          MediaPlayer_def Let_def KEY_UP_def KEY_DOWN_def KEY_PPAGE_def KEY_NPAGE_def KEY_HOME_def)
  have i: "\<exists>m2 m3. handle_keys 2 [KEY_DOWN, KEY_DOWN] demo_player w = Inr (Continue, m2, w)
         \<and> highlight m2 = 2 \<and> start_index m2 = 1
         \<and> handle_keys 2 [KEY_HOME] m2 w = Inr (Continue, m3, w)
         \<and> highlight m3 = 0 \<and> start_index m3 = 0"
    using g h by (simp add: set_needs_redraw_def demo_player_def MediaPlayer_def)
  from a b c d e f i show ?thesis by blast
qed

theorem update_scroll_minimal_witness:
  "start_index (update_scroll 2 (demo_player\<lparr>highlight := 1\<rparr>)) = 0
   \<and> start_index (update_scroll 2 (demo_player\<lparr>highlight := 1, start_index := 2\<rparr>)) = 1
   \<and> start_index (update_scroll 2 (demo_player\<lparr>highlight := 2\<rparr>)) = 1"
  using update_scroll_minimal [of 2 "demo_player\<lparr>highlight := 1\<rparr>" mpv_world]
        update_scroll_minimal [of 2 "demo_player\<lparr>highlight := 1, start_index := 2\<rparr>" mpv_world]
        update_scroll_minimal [of 2 "demo_player\<lparr>highlight := 2\<rparr>" mpv_world]
  by (simp add: demo_player_def MediaPlayer_def)

text \<open>
  Claim C2. For a non-empty library and a fixed number \<open>display_count \<ge> 1\<close> of visible
  rows, the freshly constructed player satisfies
  \<open>0 \<le> start_index \<le> highlight < start_index + display_count\<close>, and from any player over
  that library satisfying it, after every prefix of every sequence of the keys Up, Down,
  PageUp, PageDown, Home and End the loop is still running, the world is untouched and the
  player satisfies it again.
\<close>

theorem viewport_invariant:
  assumes "fs \<noteq> []" and "1 \<le> dc" and "\<forall>ch \<in> set chs. is_nav_key ch"
  shows "viewport_ok dc (MediaPlayer dir fs)
       \<and> (files m = fs \<and> viewport_ok dc m \<longrightarrow>
            (\<forall>k \<le> length chs. \<exists>m1. handle_keys dc (take k chs) m w = Inr (Continue, m1, w)
                \<and> 0 \<le> start_index m1 \<and> start_index m1 \<le> highlight m1
                \<and> highlight m1 < start_index m1 + dc))"
proof -
  have init: "viewport_ok dc (MediaPlayer dir fs)"
    using assms(2) by (simp add: viewport_ok_def MediaPlayer_def)
  have step: "\<exists>m1. handle_keys dc (take k chs) m w = Inr (Continue, m1, w)
                \<and> 0 \<le> start_index m1 \<and> start_index m1 \<le> highlight m1
                \<and> highlight m1 < start_index m1 + dc"
    if "files m = fs" "viewport_ok dc m" for k
  proof -
    have "\<forall>ch \<in> set (take k chs). is_nav_key ch"
      using assms(3) by (auto dest: in_set_takeD)
    from handle_keys_nav [OF this _ assms(2) that(2), of w] that(1) assms(1)
    show ?thesis by (auto simp: viewport_ok_def)
  qed
  from init step show ?thesis by blast
qed

theorem viewport_invariant_witness:
  "[''a.mp3'', ''b.mp3'', ''c.mp3''] \<noteq> [] \<and> (1::int) \<le> 2
   \<and> list_all is_nav_key [KEY_DOWN, KEY_END, KEY_PPAGE, KEY_NPAGE, KEY_UP, KEY_HOME]
   \<and> files demo_player = [''a.mp3'', ''b.mp3'', ''c.mp3''] \<and> viewport_ok 2 demo_player
   \<and> (\<exists>m1. handle_keys 2 [KEY_DOWN, KEY_END, KEY_PPAGE, KEY_NPAGE, KEY_UP, KEY_HOME]
                 demo_player mpv_world = Inr (Continue, m1, mpv_world)
             \<and> 0 \<le> start_index m1 \<and> start_index m1 \<le> highlight m1
             \<and> highlight m1 < start_index m1 + 2)"
proof -
  have h1: "[''a.mp3'', ''b.mp3'', ''c.mp3''] \<noteq> []" by simp
  have h2: "(1::int) \<le> 2" by simp
  have h3: "\<forall>ch \<in> set [KEY_DOWN, KEY_END, KEY_PPAGE, KEY_NPAGE, KEY_UP, KEY_HOME]. is_nav_key ch"
    by (simp add: is_nav_key_def)
  have h4: "files demo_player = [''a.mp3'', ''b.mp3'', ''c.mp3'']"
    by (simp add: demo_player_def MediaPlayer_def)
  have h5: "viewport_ok 2 demo_player"
    by (simp add: viewport_ok_def demo_player_def MediaPlayer_def)
  from viewport_invariant [OF h1 h2 h3, of "''/music''" demo_player mpv_world] h4 h5
  have "\<forall>k \<le> 6. \<exists>m1.
          handle_keys 2 (take k [KEY_DOWN, KEY_END, KEY_PPAGE, KEY_NPAGE, KEY_UP, KEY_HOME])
            demo_player mpv_world = Inr (Continue, m1, mpv_world)
          \<and> 0 \<le> start_index m1 \<and> start_index m1 \<le> highlight m1
          \<and> highlight m1 < start_index m1 + 2"
    by simp
  then have "\<exists>m1.
          handle_keys 2 (take 6 [KEY_DOWN, KEY_END, KEY_PPAGE, KEY_NPAGE, KEY_UP, KEY_HOME])
            demo_player mpv_world = Inr (Continue, m1, mpv_world)
          \<and> 0 \<le> start_index m1 \<and> start_index m1 \<le> highlight m1
          \<and> highlight m1 < start_index m1 + 2"
    by blast
  with h1 h2 h3 h4 h5 show ?thesis by (simp add: list_all_iff)
qed

section \<open>Random play and the finished signal\<close>

text \<open>
  Claim C10. With an empty library \<^verbatim>\<open>play_random_file\<close> returns the player and the world
  exactly as they were: no process is started, no random number is drawn, no field changes.
  The same holds at its three call sites: the auto-advance only resets the finished signal,
  the random key and the shuffle key only do their own bookkeeping (dirty flag, shuffle flag).
  For any library, \<^verbatim>\<open>play_random_file\<close> never raises \<^verbatim>\<open>ValueError\<close> (the draw is never
  made over an empty range) nor \<^verbatim>\<open>IndexError\<close>.
\<close>

theorem play_random_file_empty:
  "(files m = [] \<longrightarrow>
      play_random_file dc m w = Inr (m, w)
      \<and> (child_finished (state m) \<and> shuffle_mode m \<longrightarrow>
           handle_child_finished dc m w = Inr (set_child_finished False m, w))
      \<and> handle_key dc (ord CHR ''r'') m w = Inr (Continue, set_needs_redraw True m, w)
      \<and> (\<not> shuffle_mode m \<and> \<not> is_playing m \<longrightarrow>
           handle_key dc (ord CHR ''s'') m w
             = Inr (Continue, (set_needs_redraw True m)\<lparr>shuffle_mode := True\<rparr>, w)))
   \<and> play_random_file dc m w \<noteq> Inl ValueError
   \<and> play_random_file dc m w \<noteq> Inl IndexError"
proof -
  have a: "play_random_file dc m w = Inr (m, w)" if "files m = []"
    using that by (simp add: play_random_file_def)
  have b: "handle_child_finished dc m w = Inr (set_child_finished False m, w)"
    if "files m = []" "child_finished (state m)" "shuffle_mode m"
    using that by (simp add: handle_child_finished_def set_child_finished_def play_random_file_def)
  have c: "handle_key dc (ord CHR ''r'') m w = Inr (Continue, set_needs_redraw True m, w)"
    if "files m = []"
    using that
    by (simp add: handle_key_def play_random_file_def set_needs_redraw_def ord_def Let_def
          KEY_UP_def KEY_DOWN_def KEY_PPAGE_def KEY_NPAGE_def KEY_HOME_def KEY_END_def)
  have d: "handle_key dc (ord CHR ''s'') m w
             = Inr (Continue, (set_needs_redraw True m)\<lparr>shuffle_mode := True\<rparr>, w)"
    if "files m = []" "\<not> shuffle_mode m" "\<not> is_playing m"
    using that
    by (simp add: handle_key_def play_random_file_def set_needs_redraw_def ord_def Let_def
          is_playing_def get_process_def
          KEY_UP_def KEY_DOWN_def KEY_PPAGE_def KEY_NPAGE_def KEY_HOME_def KEY_END_def)
  have e: "play_random_file dc m w \<noteq> Inl ValueError" "play_random_file dc m w \<noteq> Inl IndexError"
    using play_random_file_raises [of dc m w] by auto
  from a b c d e show ?thesis by blast
qed

theorem play_random_file_empty_witness:
  "files (MediaPlayer ''/music'' []) = []
   \<and> play_random_file 11 (MediaPlayer ''/music'' []) mpv_world
       = Inr (MediaPlayer ''/music'' [], mpv_world)
   \<and> \<not> shuffle_mode (MediaPlayer ''/music'' []) \<and> \<not> is_playing (MediaPlayer ''/music'' [])
   \<and> handle_key 11 (ord CHR ''s'') (MediaPlayer ''/music'' []) mpv_world
       = Inr (Continue, (MediaPlayer ''/music'' [])\<lparr>shuffle_mode := True\<rparr>, mpv_world)
   \<and> child_finished (state (set_child_finished True ((MediaPlayer ''/music'' [])\<lparr>shuffle_mode := True\<rparr>)))
   \<and> shuffle_mode (set_child_finished True ((MediaPlayer ''/music'' [])\<lparr>shuffle_mode := True\<rparr>))
   \<and> handle_child_finished 11
         (set_child_finished True ((MediaPlayer ''/music'' [])\<lparr>shuffle_mode := True\<rparr>)) mpv_world
       = Inr ((MediaPlayer ''/music'' [])\<lparr>shuffle_mode := True\<rparr>, mpv_world)"
  using play_random_file_empty [of "MediaPlayer ''/music'' []" 11 mpv_world]
        play_random_file_empty
          [of "set_child_finished True ((MediaPlayer ''/music'' [])\<lparr>shuffle_mode := True\<rparr>)" 11 mpv_world]
  by (simp add: MediaPlayer_def is_playing_def get_process_def set_needs_redraw_def
        set_child_finished_def)

text \<open>
  Claim C3. Take any pass of the loop, with any input, and let the draw phase be over.
  When the finished signal is set and shuffle mode is on, the pass is: reset the signal,
  do what \<^verbatim>\<open>play_random_file\<close> does, handle the input; for a non-empty library the log of
  a pass that returns continues after the draw phase with a random draw over
  \<open>[0, len - 1]\<close>. When the signal is set and shuffle mode is off, the pass is: reset the
  signal, handle the input; it is the same pass as from the state with the signal already
  clear, so consuming the signal starts nothing. In a pass with no key waiting, the log
  continues with a random draw exactly when shuffle mode is on; with shuffle on the
  highlight ends on the drawn index, with shuffle off the pass changes nothing but the
  signal and what the draw phase did. When the signal is not set, the pass is the draw
  phase and the input. At the end of every pass that returns, the signal is clear.
\<close>

theorem finished_signal_consumed:
  "(child_finished (state m) \<and> shuffle_mode m \<longrightarrow>
      iteration term_y inp m w =
        (case play_random_file (max 1 (term_y - 13))
                (set_child_finished False (fst (draw_interface m w))) (snd (draw_interface m w)) of
           Inl e \<Rightarrow> Inl e
         | Inr (m2, w2) \<Rightarrow> handle_input (max 1 (term_y - 13)) inp m2 w2))
   \<and> (child_finished (state m) \<and> shuffle_mode m \<and> files m \<noteq> [] \<longrightarrow>
        (\<forall>c m1 w1. iteration term_y inp m w = Inr (c, m1, w1) \<longrightarrow>
           (\<exists>r ls. 0 \<le> r \<and> r < int (length (files m))
              \<and> trace w1 = trace (snd (draw_interface m w))
                             @ Randint 0 (int (length (files m)) - 1) r # ls)))
   \<and> (child_finished (state m) \<and> \<not> shuffle_mode m \<longrightarrow>
        iteration term_y inp m w =
          handle_input (max 1 (term_y - 13)) inp
            (set_child_finished False (fst (draw_interface m w))) (snd (draw_interface m w))
        \<and> iteration term_y inp m w = iteration term_y inp (set_child_finished False m) w)
   \<and> (child_finished (state m) \<and> files m \<noteq> [] \<longrightarrow>
        (\<forall>c m1 w1. iteration term_y (Getch ERR) m w = Inr (c, m1, w1) \<longrightarrow>
           ((\<exists>r ls. trace w1 = trace (snd (draw_interface m w))
                                @ Randint 0 (int (length (files m)) - 1) r # ls)
            \<longleftrightarrow> shuffle_mode m)
           \<and> (shuffle_mode m \<longrightarrow>
                (\<exists>ls. 0 \<le> highlight m1 \<and> highlight m1 < int (length (files m))
                   \<and> trace w1 = trace (snd (draw_interface m w))
                                  @ Randint 0 (int (length (files m)) - 1) (highlight m1) # ls))
           \<and> (\<not> shuffle_mode m \<longrightarrow>
                m1 = set_child_finished False (fst (draw_interface m w))
                \<and> w1 = snd (draw_interface m w))))
   \<and> (\<not> child_finished (state m) \<longrightarrow>
        iteration term_y inp m w =
          handle_input (max 1 (term_y - 13)) inp (fst (draw_interface m w))
            (snd (draw_interface m w)))
   \<and> (\<forall>c m1 w1. iteration term_y inp m w = Inr (c, m1, w1) \<longrightarrow> \<not> child_finished (state m1))"
proof -
  let ?dc = "max 1 (term_y - 13)"
  let ?m = "fst (draw_interface m w)" and ?w = "snd (draw_interface m w)"
  let ?n = "int (length (files m))"
  have fl: "files (set_child_finished False ?m) = files m"
    by (simp add: set_child_finished_def draw_interface_player)
  have a: "iteration term_y inp m w =
        (case play_random_file ?dc (set_child_finished False ?m) ?w of
           Inl e \<Rightarrow> Inl e
         | Inr (m2, w2) \<Rightarrow> handle_input ?dc inp m2 w2)"
    if "child_finished (state m)" "shuffle_mode m" for inp
    using that
    by (simp add: iteration_unfold handle_child_finished_cases draw_interface_player split_beta)
  have b: "\<exists>r ls. 0 \<le> r \<and> r < ?n \<and> highlight m2 = r
             \<and> handle_input ?dc inp m2 w2 = Inr (c, m1, w1)
             \<and> trace w2 = trace ?w @ Randint 0 (?n - 1) r # ls"
    if cf: "child_finished (state m)" and sm: "shuffle_mode m" and ne: "files m \<noteq> []"
      and res: "iteration term_y inp m w = Inr (c, m1, w1)"
      and pr: "play_random_file ?dc (set_child_finished False ?m) ?w = Inr (m2, w2)"
    for inp c m1 w1 m2 w2
  proof -
    from res a [OF cf sm, of inp] pr have hi: "handle_input ?dc inp m2 w2 = Inr (c, m1, w1)"
      by simp
    from ne fl have "files (set_child_finished False ?m) \<noteq> []" by simp
    from play_random_file_result [OF this pr] hi show ?thesis by (auto simp: fl)
  qed
  have pr_ex: "\<exists>m2 w2. play_random_file ?dc (set_child_finished False ?m) ?w = Inr (m2, w2)"
    if cf: "child_finished (state m)" and sm: "shuffle_mode m"
      and res: "iteration term_y inp m w = Inr (c, m1, w1)" for inp c m1 w1
    using res a [OF cf sm, of inp]
    by (cases "play_random_file ?dc (set_child_finished False ?m) ?w") auto
  have b1: "\<exists>r ls. 0 \<le> r \<and> r < ?n \<and> trace w1 = trace ?w @ Randint 0 (?n - 1) r # ls"
    if cf: "child_finished (state m)" and sm: "shuffle_mode m" and ne: "files m \<noteq> []"
      and res: "iteration term_y inp m w = Inr (c, m1, w1)" for c m1 w1
  proof -
    from pr_ex [OF cf sm res] obtain m2 w2 where
      pr: "play_random_file ?dc (set_child_finished False ?m) ?w = Inr (m2, w2)" by blast
    from b [OF cf sm ne res pr] obtain r ls where
      r: "0 \<le> r" "r < ?n" "handle_input ?dc inp m2 w2 = Inr (c, m1, w1)"
         "trace w2 = trace ?w @ Randint 0 (?n - 1) r # ls" by blast
    from handle_input_trace_ext [OF r(3)] obtain ls' where "trace w1 = trace w2 @ ls'" by blast
    with r(4) have "trace w1 = trace ?w @ Randint 0 (?n - 1) r # (ls @ ls')" by simp
    with r(1,2) show ?thesis by blast
  qed
  have c1: "iteration term_y inp m w = handle_input ?dc inp (set_child_finished False ?m) ?w"
    if "child_finished (state m)" "\<not> shuffle_mode m" for inp
    using that
    by (simp add: iteration_unfold handle_child_finished_cases draw_interface_player split_beta)
  have e: "iteration term_y inp m' w =
             handle_input ?dc inp (fst (draw_interface m' w)) (snd (draw_interface m' w))"
    if "\<not> child_finished (state m')" for m'
    using that
    by (simp add: iteration_unfold handle_child_finished_cases draw_interface_player split_beta)
  have c2: "iteration term_y inp m w = iteration term_y inp (set_child_finished False m) w"
    if cf: "child_finished (state m)" and sm: "\<not> shuffle_mode m"
  proof -
    have "\<not> child_finished (state (set_child_finished False m))"
      by (simp add: set_child_finished_def)
    from e [OF this] c1 [OF cf sm] show ?thesis by (simp add: draw_interface_signal)
  qed
  have d: "((\<exists>r ls. trace w1 = trace ?w @ Randint 0 (?n - 1) r # ls) \<longleftrightarrow> shuffle_mode m)
           \<and> (shuffle_mode m \<longrightarrow>
                (\<exists>ls. 0 \<le> highlight m1 \<and> highlight m1 < ?n
                   \<and> trace w1 = trace ?w @ Randint 0 (?n - 1) (highlight m1) # ls))
           \<and> (\<not> shuffle_mode m \<longrightarrow> m1 = set_child_finished False ?m \<and> w1 = ?w)"
    if cf: "child_finished (state m)" and ne: "files m \<noteq> []"
      and res: "iteration term_y (Getch ERR) m w = Inr (c, m1, w1)" for c m1 w1
  proof (cases "shuffle_mode m")
    case True
    from pr_ex [OF cf True res] obtain m2 w2 where
      pr: "play_random_file ?dc (set_child_finished False ?m) ?w = Inr (m2, w2)" by blast
    from b [OF cf True ne res pr] obtain r ls where
      r: "0 \<le> r" "r < ?n" "highlight m2 = r"
         "handle_input ?dc (Getch ERR) m2 w2 = Inr (c, m1, w1)"
         "trace w2 = trace ?w @ Randint 0 (?n - 1) r # ls" by blast
    from r(4) have "m1 = m2" "w1 = w2" by (simp_all add: handle_input_no_key)
    with r True show ?thesis by auto
  next
    case False
    from res c1 [OF cf False, of "Getch ERR"]
    have "m1 = set_child_finished False ?m" "w1 = ?w" by (simp_all add: handle_input_no_key)
    with False show ?thesis by simp
  qed
  have f: "\<not> child_finished (state m1)" if res: "iteration term_y inp m w = Inr (c, m1, w1)"
    for c m1 w1
  proof (cases "handle_child_finished ?dc ?m ?w")
    case (Inl x)
    with res show ?thesis by (simp add: iteration_unfold)
  next
    case (Inr p)
    obtain m2 w2 where p: "p = (m2, w2)" by (cases p)
    with Inr have h: "handle_child_finished ?dc ?m ?w = Inr (m2, w2)" by simp
    with res have "handle_input ?dc inp m2 w2 = Inr (c, m1, w1)" by (simp add: iteration_unfold)
    from handle_input_child_finished [OF this] handle_child_finished_clears [OF h]
    show ?thesis by simp
  qed
  from a [of inp] b1 c1 [of inp] c2 d e [of m] f show ?thesis by blast
qed

theorem finished_signal_consumed_witness:
  "child_finished (state (finished_player True)) \<and> shuffle_mode (finished_player True)
   \<and> files (finished_player True) \<noteq> []
   \<and> iteration 24 (Getch ERR) (finished_player True) mpv_world =
       Inr (Continue,
            demo_player\<lparr>state := \<lparr>child_finished = False, mpv_process = Some 0,
                                     needs_redraw = True\<rparr>,
                        highlight := 2, shuffle_mode := True\<rparr>,
            mpv_world\<lparr>procs := [\<lparr>argv = mpv_cmd ''c.mp3'', alive = True, heeds_term = True\<rparr>],
                      rng := [1] @- sconst 0,
                      trace := [Refresh, Randint 0 2 2, Popen (mpv_cmd ''c.mp3'') (Some 0)]\<rparr>)
   \<and> child_finished (state (finished_player False)) \<and> \<not> shuffle_mode (finished_player False)
   \<and> iteration 24 (Getch ERR) (finished_player False) mpv_world =
       Inr (Continue,
            demo_player\<lparr>state := \<lparr>child_finished = False, mpv_process = None,
                                     needs_redraw = False\<rparr>\<rparr>,
            mpv_world\<lparr>trace := [Refresh]\<rparr>)
   \<and> iteration 24 (Getch KEY_DOWN) (finished_player False) mpv_world =
       iteration 24 (Getch KEY_DOWN) (set_child_finished False (finished_player False)) mpv_world
   \<and> iteration 24 (Getch KEY_DOWN) (finished_player False) mpv_world =
       Inr (Continue,
            demo_player\<lparr>state := \<lparr>child_finished = False, mpv_process = None,
                                     needs_redraw = True\<rparr>,
                        highlight := 1\<rparr>,
            mpv_world\<lparr>trace := [Refresh]\<rparr>)
   \<and> \<not> child_finished (state demo_player)
   \<and> iteration 24 (Getch ERR) demo_player mpv_world =
       Inr (Continue,
            demo_player\<lparr>state := \<lparr>child_finished = False, mpv_process = None,
                                     needs_redraw = False\<rparr>\<rparr>,
            mpv_world\<lparr>trace := [Refresh]\<rparr>)"
proof -
  have a: "child_finished (state (finished_player True))" "shuffle_mode (finished_player True)"
    "files (finished_player True) \<noteq> []"
    "child_finished (state (finished_player False))" "\<not> shuffle_mode (finished_player False)"
    "\<not> child_finished (state demo_player)"
    by (simp_all add: finished_player_def demo_player_def MediaPlayer_def)
  have b: "iteration 24 (Getch ERR) (finished_player True) mpv_world =
       Inr (Continue,
            demo_player\<lparr>state := \<lparr>child_finished = False, mpv_process = Some 0,
                                     needs_redraw = True\<rparr>,
                        highlight := 2, shuffle_mode := True\<rparr>,
            mpv_world\<lparr>procs := [\<lparr>argv = mpv_cmd ''c.mp3'', alive = True, heeds_term = True\<rparr>],
                      rng := [1] @- sconst 0,
                      trace := [Refresh, Randint 0 2 2, Popen (mpv_cmd ''c.mp3'') (Some 0)]\<rparr>)"
    by (simp add: evals)
  have c: "iteration 24 (Getch ERR) (finished_player False) mpv_world =
       Inr (Continue,
            demo_player\<lparr>state := \<lparr>child_finished = False, mpv_process = None,
                                     needs_redraw = False\<rparr>\<rparr>,
            mpv_world\<lparr>trace := [Refresh]\<rparr>)"
    by (simp add: evals)
  have d: "iteration 24 (Getch KEY_DOWN) (finished_player False) mpv_world =
       Inr (Continue,
            demo_player\<lparr>state := \<lparr>child_finished = False, mpv_process = None,
                                     needs_redraw = True\<rparr>,
                        highlight := 1\<rparr>,
            mpv_world\<lparr>trace := [Refresh]\<rparr>)"
    by (simp add: evals)
  have e: "iteration 24 (Getch ERR) demo_player mpv_world =
       Inr (Continue,
            demo_player\<lparr>state := \<lparr>child_finished = False, mpv_process = None,
                                     needs_redraw = False\<rparr>\<rparr>,
            mpv_world\<lparr>trace := [Refresh]\<rparr>)"
    by (simp add: evals)
  note t = finished_signal_consumed [of "finished_player False" 24 "Getch KEY_DOWN" mpv_world]
  from t a have f: "iteration 24 (Getch KEY_DOWN) (finished_player False) mpv_world =
       iteration 24 (Getch KEY_DOWN) (set_child_finished False (finished_player False)) mpv_world"
    by blast
  from a b c d e f show ?thesis by blast
qed

section \<open>The shuffle key\<close>

text \<open>
  Claim C7, as the code has it. For a non-empty library, a press of the shuffle key that
  is handled to the end flips the shuffle flag. When the flag becomes enabled while the slot
  is empty, a random index \<open>i\<close> of the library is drawn, \<^verbatim>\<open>play_file\<close> is called on the
  file at \<open>i\<close> and the highlight is set to \<open>i\<close>. Afterwards something is playing exactly
  when that call reported success, and then the slot holds a running child, started by this
  call, whose command line ends in the path of that file.
\<close>

theorem toggle_shuffle_plays:
  assumes key: "ch = ord CHR ''s'' \<or> ch = ord CHR ''S''"
      and lib: "files m \<noteq> []"
      and res: "handle_key dc ch m w = Inr (c, m1, w1)"
  shows "shuffle_mode m1 = (\<not> shuffle_mode m)
       \<and> (\<not> shuffle_mode m \<and> \<not> is_playing m \<longrightarrow>
            (\<exists>i ok m2. 0 \<le> i \<and> i < int (length (files m)) \<and> highlight m1 = i
               \<and> play_file (files m ! nat i) ((set_needs_redraw True m)\<lparr>shuffle_mode := True\<rparr>)
                    (w\<lparr>rng := stl (rng w),
                       trace := trace w @ [Randint 0 (int (length (files m)) - 1) i]\<rparr>)
                  = Inr (ok, m2, w1)
               \<and> is_playing m1 = ok
               \<and> (ok \<longrightarrow> (\<exists>p. get_process (state m1) = Some p \<and> proc_alive w1 p
                              \<and> length (procs w) \<le> p
                              \<and> last (argv (procs w1 ! p)) = filepath m (files m ! nat i)))))"
proof (cases "\<not> shuffle_mode m \<and> \<not> is_playing m")
  case False
  then have "\<not> (\<not> shuffle_mode m \<and> get_process (state m) = None)"
    by (simp add: is_playing_def)
  with res have "m1 = (set_needs_redraw True m)\<lparr>shuffle_mode := \<not> shuffle_mode m\<rparr>"
    by (simp add: handle_key_shuffle [OF key])
  then have "shuffle_mode m1 = (\<not> shuffle_mode m)" by simp
  with False show ?thesis by blast
next
  case True
  let ?m = "(set_needs_redraw True m)\<lparr>shuffle_mode := True\<rparr>"
  have idle: "get_process (state ?m) = None"
    using True by (simp add: is_playing_def set_needs_redraw_def get_process_def)
  have fm: "files ?m = files m" "filepath ?m = filepath m"
    by (simp_all add: set_needs_redraw_def filepath_def fun_eq_iff)
  from True have "\<not> shuffle_mode m \<and> get_process (state m) = None"
    by (simp add: is_playing_def)
  with res have pr: "play_random_file dc ?m w = Inr (m1, w1)"
    by (simp add: handle_key_shuffle [OF key] split: sum.splits prod.splits)
  from lib fm have "files ?m \<noteq> []" by simp
  from play_random_file_unfold [OF this, of dc w] obtain i where
    i: "0 \<le> i" "i < int (length (files m))"
    and u: "play_random_file dc ?m w =
             (case play_file (files m ! nat i) ?m
                     (w\<lparr>rng := stl (rng w),
                        trace := trace w @ [Randint 0 (int (length (files m)) - 1) i]\<rparr>) of
                Inl e \<Rightarrow> Inl e
              | Inr (ok, m2, w2) \<Rightarrow>
                  Inr (set_needs_redraw True (update_scroll dc (m2\<lparr>highlight := i\<rparr>)), w2))"
    by (auto simp: fm)
  let ?w = "w\<lparr>rng := stl (rng w), trace := trace w @ [Randint 0 (int (length (files m)) - 1) i]\<rparr>"
  from pr u obtain ok m2 where
    pf: "play_file (files m ! nat i) ?m ?w = Inr (ok, m2, w1)"
    and m1: "m1 = set_needs_redraw True (update_scroll dc (m2\<lparr>highlight := i\<rparr>))"
    by (auto split: sum.splits)
  have st: "get_process (state m1) = get_process (state m2)" "highlight m1 = i"
    "shuffle_mode m1 = shuffle_mode m2"
    by (simp_all add: m1 set_needs_redraw_def update_scroll_fields get_process_def)
  from play_file_player [OF pf] have sm: "shuffle_mode m2" by simp
  from play_file_idle [OF idle pf] have
    "is_playing m2 = ok"
    "ok \<longrightarrow> (\<exists>p. get_process (state m2) = Some p \<and> proc_alive w1 p
                      \<and> length (procs w) \<le> p
                      \<and> last (argv (procs w1 ! p)) = filepath m (files m ! nat i))"
    by (simp_all add: fm)
  with st have pl: "is_playing m1 = ok"
    "ok \<longrightarrow> (\<exists>p. get_process (state m1) = Some p \<and> proc_alive w1 p
                      \<and> length (procs w) \<le> p
                      \<and> last (argv (procs w1 ! p)) = filepath m (files m ! nat i))"
    by (simp_all add: is_playing_def)
  from i pf st sm pl True show ?thesis by blast
qed

theorem toggle_shuffle_plays_witness:
  "files demo_player \<noteq> [] \<and> \<not> shuffle_mode demo_player \<and> \<not> is_playing demo_player
   \<and> handle_key 11 (ord CHR ''s'') demo_player mpv_world =
       Inr (Continue,
            demo_player\<lparr>state := \<lparr>child_finished = False, mpv_process = Some 0,
                                     needs_redraw = True\<rparr>,
                        highlight := 2, shuffle_mode := True\<rparr>,
            mpv_world\<lparr>procs := [\<lparr>argv = mpv_cmd ''c.mp3'', alive = True, heeds_term = True\<rparr>],
                      rng := [1] @- sconst 0,
                      trace := [Randint 0 2 2, Popen (mpv_cmd ''c.mp3'') (Some 0)]\<rparr>)"
proof -
  have h1: "ord CHR ''s'' = ord CHR ''s'' \<or> ord CHR ''s'' = ord CHR ''S''" by simp
  have h2: "files demo_player \<noteq> []" by (simp add: demo_player_def MediaPlayer_def)
  have h3: "handle_key 11 (ord CHR ''s'') demo_player mpv_world =
       Inr (Continue,
            demo_player\<lparr>state := \<lparr>child_finished = False, mpv_process = Some 0,
                                     needs_redraw = True\<rparr>,
                        highlight := 2, shuffle_mode := True\<rparr>,
            mpv_world\<lparr>procs := [\<lparr>argv = mpv_cmd ''c.mp3'', alive = True, heeds_term = True\<rparr>],
                      rng := [1] @- sconst 0,
                      trace := [Randint 0 2 2, Popen (mpv_cmd ''c.mp3'') (Some 0)]\<rparr>)"
    by (simp add: evals)
  from toggle_shuffle_plays [OF h1 h2 h3] h2 h3 show ?thesis
    by (simp add: demo_player_def MediaPlayer_def is_playing_def get_process_def)
qed

text \<open>
  The claim as the specification words it promises that playback starts. On a machine
  where none of the candidate players is installed it does not: the shuffle flag is turned
  on and the highlight moves to the drawn file, but the three launch attempts fail and
  nothing is playing.
\<close>

theorem toggle_shuffle_counterexample:
  "handle_key 11 (ord CHR ''s'') demo_player bare_world =
     Inr (Continue,
          demo_player\<lparr>highlight := 2, shuffle_mode := True\<rparr>,
          bare_world\<lparr>rng := [1] @- sconst 0,
                     trace := [Randint 0 2 2,
                               Popen [''mpv'', ''--no-terminal'', ''--quiet'', ''/music/c.mp3''] None,
                               Popen [''mplayer'', ''-quiet'', ''/music/c.mp3''] None,
                               Popen [''vlc'', ''--intf'', ''dummy'', ''/music/c.mp3''] None]\<rparr>)
   \<and> files demo_player \<noteq> [] \<and> \<not> shuffle_mode demo_player \<and> \<not> is_playing demo_player
   \<and> \<not> is_playing (demo_player\<lparr>highlight := 2, shuffle_mode := True\<rparr>)
   \<and> procs bare_world = []"
  by (simp add: evals bare_world_def is_playing_def)

section \<open>The dirty flag\<close>

text \<open>
  Claim C8 says that the dirty flag is set by every change of state and that only a
  completed render clears it. The last branch of the key dispatch (line 418) clears it
  as well, whatever set it. Take the player right after the monitor has reported the end
  of a track in shuffle mode, a terminal of 24 lines, and the key \<^verbatim>\<open>x\<close>, which is bound to
  nothing. The pass draws the frame of the old state, the auto-advance then starts
  \<^verbatim>\<open>c.mp3\<close>, moves the highlight to it and sets the flag, and the key clears the flag
  again: the pass ends with a new session and a new highlight, the flag clear, and the only
  frame in the log drawn before the change. The next pass, with no key waiting, draws
  nothing. In general the key turns a set flag into a clear one and leaves the world, and
  so the screen, as it was.
\<close>

theorem unknown_key_drops_redraw:
  "iteration 24 (Getch (ord CHR ''x'')) (finished_player True) mpv_world =
     Inr (Continue,
          demo_player\<lparr>state := \<lparr>child_finished = False, mpv_process = Some 0,
                                   needs_redraw = False\<rparr>,
                      highlight := 2, shuffle_mode := True\<rparr>,
          mpv_world\<lparr>procs := [\<lparr>argv = mpv_cmd ''c.mp3'', alive = True, heeds_term = True\<rparr>],
                    rng := [1] @- sconst 0,
                    trace := [Refresh, Randint 0 2 2, Popen (mpv_cmd ''c.mp3'') (Some 0)]\<rparr>)
   \<and> iteration 24 (Getch ERR)
         (demo_player\<lparr>state := \<lparr>child_finished = False, mpv_process = Some 0,
                                  needs_redraw = False\<rparr>,
                     highlight := 2, shuffle_mode := True\<rparr>)
         (mpv_world\<lparr>procs := [\<lparr>argv = mpv_cmd ''c.mp3'', alive = True, heeds_term = True\<rparr>],
                    rng := [1] @- sconst 0,
                    trace := [Refresh, Randint 0 2 2, Popen (mpv_cmd ''c.mp3'') (Some 0)]\<rparr>) =
     Inr (Continue,
          demo_player\<lparr>state := \<lparr>child_finished = False, mpv_process = Some 0,
                                   needs_redraw = False\<rparr>,
                      highlight := 2, shuffle_mode := True\<rparr>,
          mpv_world\<lparr>procs := [\<lparr>argv = mpv_cmd ''c.mp3'', alive = True, heeds_term = True\<rparr>],
                    rng := [1] @- sconst 0,
                    trace := [Refresh, Randint 0 2 2, Popen (mpv_cmd ''c.mp3'') (Some 0)]\<rparr>)
   \<and> handle_key dc (ord CHR ''x'') (set_needs_redraw True m) w
       = Inr (Continue, set_needs_redraw False m, w)"
proof -
  have a: "iteration 24 (Getch (ord CHR ''x'')) (finished_player True) mpv_world =
     Inr (Continue,
          demo_player\<lparr>state := \<lparr>child_finished = False, mpv_process = Some 0,
                                   needs_redraw = False\<rparr>,
                      highlight := 2, shuffle_mode := True\<rparr>,
          mpv_world\<lparr>procs := [\<lparr>argv = mpv_cmd ''c.mp3'', alive = True, heeds_term = True\<rparr>],
                    rng := [1] @- sconst 0,
                    trace := [Refresh, Randint 0 2 2, Popen (mpv_cmd ''c.mp3'') (Some 0)]\<rparr>)"
    by (simp add: evals)
  have b: "iteration 24 (Getch ERR)
         (demo_player\<lparr>state := \<lparr>child_finished = False, mpv_process = Some 0,
                                  needs_redraw = False\<rparr>,
                     highlight := 2, shuffle_mode := True\<rparr>)
         (mpv_world\<lparr>procs := [\<lparr>argv = mpv_cmd ''c.mp3'', alive = True, heeds_term = True\<rparr>],
                    rng := [1] @- sconst 0,
                    trace := [Refresh, Randint 0 2 2, Popen (mpv_cmd ''c.mp3'') (Some 0)]\<rparr>) =
     Inr (Continue,
          demo_player\<lparr>state := \<lparr>child_finished = False, mpv_process = Some 0,
                                   needs_redraw = False\<rparr>,
                      highlight := 2, shuffle_mode := True\<rparr>,
          mpv_world\<lparr>procs := [\<lparr>argv = mpv_cmd ''c.mp3'', alive = True, heeds_term = True\<rparr>],
                    rng := [1] @- sconst 0,
                    trace := [Refresh, Randint 0 2 2, Popen (mpv_cmd ''c.mp3'') (Some 0)]\<rparr>)"
    by (simp add: evals)
  have c: "handle_key dc (ord CHR ''x'') (set_needs_redraw True m) w
       = Inr (Continue, set_needs_redraw False m, w)"
    by (simp add: unknown_key set_needs_redraw_def)
  from a b c show ?thesis by blast
qed

section \<open>The monitor beside the event loop\<close>

text \<open>
  Claim C9 says that reading whether a session is live and clearing it is atomic with
  respect to the other thread, so that no update is lost. In the code the monitor reads the
  handle at line 58 and clears the slot at line 60, with the lock released in between.
  Take the schedule in which \<^verbatim>\<open>a.mp3\<close> is played, its player exits, the monitor runs lines
  58 and 59, the foreground thread plays \<^verbatim>\<open>b.mp3\<close>, and the monitor runs lines 60 to 62.
  The monitor's clearing write removes the handle of the player of \<^verbatim>\<open>b.mp3\<close>: that player
  is running, the slot is empty and the finished signal is raised. Playing \<^verbatim>\<open>c.mp3\<close> next
  stops nothing and leaves two players running.
\<close>

theorem monitor_clear_loses_session:
  "run_schedule
     [Play ''a.mp3'', Child_exit 0, Monitor, Monitor, Play ''b.mp3'', Monitor, Monitor, Monitor]
     (L58, demo_player, mpv_world)
     = Inr (L63, finished_player False, after_second)
   \<and> \<not> is_playing (finished_player False) \<and> proc_alive after_second 1
   \<and> run_schedule [Play ''c.mp3''] (L63, finished_player False, after_second)
     = Inr (L63,
            demo_player\<lparr>state := \<lparr>child_finished = True, mpv_process = Some 2,
                                     needs_redraw = True\<rparr>\<rparr>,
            after_second\<lparr>procs := procs after_second
                            @ [\<lparr>argv = mpv_cmd ''c.mp3'', alive = True, heeds_term = True\<rparr>],
                          trace := trace after_second @ [Popen (mpv_cmd ''c.mp3'') (Some 2)]\<rparr>)
   \<and> live_pids (after_second\<lparr>procs := procs after_second
                            @ [\<lparr>argv = mpv_cmd ''c.mp3'', alive = True, heeds_term = True\<rparr>]\<rparr>)
     = [1, 2]"
proof -
  have a: "run_schedule
     [Play ''a.mp3'', Child_exit 0, Monitor, Monitor, Play ''b.mp3'', Monitor, Monitor, Monitor]
     (L58, demo_player, mpv_world)
     = Inr (L63, finished_player False, after_second)"
    by (simp add: evals monitor_step_def has_exited_def proc_alive_def set_dead_def terminate_def
          wait_def kill_def after_second_def)
  have b: "\<not> is_playing (finished_player False)" "proc_alive after_second 1"
    by (simp_all add: is_playing_def finished_player_def get_process_def proc_alive_def
          after_second_def)
  have d: "run_schedule [Play ''c.mp3''] (L63, finished_player False, after_second)
     = Inr (L63,
            demo_player\<lparr>state := \<lparr>child_finished = True, mpv_process = Some 2,
                                     needs_redraw = True\<rparr>\<rparr>,
            after_second\<lparr>procs := procs after_second
                            @ [\<lparr>argv = mpv_cmd ''c.mp3'', alive = True, heeds_term = True\<rparr>],
                          trace := trace after_second @ [Popen (mpv_cmd ''c.mp3'') (Some 2)]\<rparr>)"
    by (simp add: evals after_second_def)
  have e: "live_pids (after_second\<lparr>procs := procs after_second
                            @ [\<lparr>argv = mpv_cmd ''c.mp3'', alive = True, heeds_term = True\<rparr>]\<rparr>)
     = [1, 2]"
    by (simp add: live_pids_def proc_alive_def after_second_def upt_rec)
  from a b d e show ?thesis by blast
qed

end
